theory Spec2Isabelle
  imports Complex_Main "HOL-Library.Word"
begin

section \<open>The image effects of the colour grid generator\<close>

text \<open>
  This theory embeds \<^verbatim>\<open>src/utils/effectsUtils.ts\<close> and the grain effect of the
  \<^verbatim>\<open>ColorGrid\<close> component. JavaScript numbers are idealised as real numbers
  (IEEE rounding of intermediate results is not modelled); \<^verbatim>\<open>NaN\<close>, which arises
  when an array is read outside its bounds, is the value \<open>None\<close> of type \<open>number\<close>.
\<close>

subsection \<open>Numbers and \<^verbatim>\<open>Uint8ClampedArray\<close>\<close>

type_synonym byte = "8 word"

type_synonym number = "real option"

text \<open>
  The conversion performed by an assignment into a \<^verbatim>\<open>Uint8ClampedArray\<close>
  (ECMAScript \<^verbatim>\<open>ToUint8Clamp\<close>): clamp to \<open>[0, 255]\<close>, then round to the nearest
  integer, ties to the even one.
\<close>

definition ToUint8Clamp :: "real \<Rightarrow> byte" where
  "ToUint8Clamp x =
     (let c = min 255 (max 0 x); f = \<lfloor>c\<rfloor>
      in word_of_int
           (if real_of_int f + 1 / 2 < c then f + 1
            else if c < real_of_int f + 1 / 2 then f
            else if even f then f else f + 1))"

text \<open>Storing a number that may be \<^verbatim>\<open>NaN\<close>: \<^verbatim>\<open>NaN\<close> is stored as 0.\<close>

definition store :: "number \<Rightarrow> byte" where
  "store n = (case n of None \<Rightarrow> 0 | Some x \<Rightarrow> ToUint8Clamp x)"

text \<open>
  \<^verbatim>\<open>data[i]\<close> used in arithmetic: the element as a number, \<^verbatim>\<open>undefined\<close> (which
  arithmetic turns into \<^verbatim>\<open>NaN\<close>) outside the array.
\<close>

definition elem :: "byte list \<Rightarrow> nat \<Rightarrow> number" where
  "elem d i = (if i < length d then Some (real (unat (d ! i))) else None)"

text \<open>
  An \<^verbatim>\<open>ImageData\<close> object. The platform only hands out objects whose array has
  \<open>4 * width * height\<close> elements (\<^verbatim>\<open>getImageData\<close> and the \<^verbatim>\<open>ImageData\<close>
  constructor both enforce it); \<open>valid\<close> states this.
\<close>

record ImageData =
  data :: "byte list"
  width :: nat
  height :: nat

definition valid :: "ImageData \<Rightarrow> bool" where
  "valid img \<longleftrightarrow> 0 < width img \<and> 0 < height img
     \<and> length (data img) = width img * height img * 4"

text \<open>The indices visited by \<^verbatim>\<open>for (let i = 0; i < data.length; i += 4)\<close>.\<close>

definition by4 :: "nat \<Rightarrow> nat list" where
  "by4 n = map (\<lambda>k. 4 * k) [0..<(n + 3) div 4]"

text \<open>Arithmetic on numbers: \<^verbatim>\<open>NaN\<close> propagates.\<close>

definition num_add :: "number \<Rightarrow> number \<Rightarrow> number" where
  "num_add a b = (case (a, b) of (Some x, Some y) \<Rightarrow> Some (x + y) | _ \<Rightarrow> None)"

definition num_mul :: "number \<Rightarrow> number \<Rightarrow> number" where
  "num_mul a b = (case (a, b) of (Some x, Some y) \<Rightarrow> Some (x * y) | _ \<Rightarrow> None)"

definition Math_sqrt :: "number \<Rightarrow> number" where
  "Math_sqrt a = (case a of None \<Rightarrow> None | Some x \<Rightarrow> if x < 0 then None else Some (sqrt x))"

text \<open>\<^verbatim>\<open>Math.min(255, Math.max(0, v))\<close> and \<^verbatim>\<open>Math.max(0, Math.min(255, v))\<close>:
  both are \<^verbatim>\<open>NaN\<close> on \<^verbatim>\<open>NaN\<close>.\<close>

definition min255_max0 :: "number \<Rightarrow> number" where
  "min255_max0 v = map_option (\<lambda>x. min 255 (max 0 x)) v"

definition max0_min255 :: "number \<Rightarrow> number" where
  "max0_min255 v = map_option (\<lambda>x. max 0 (min 255 x)) v"

subsection \<open>Gamma\<close>

text \<open>
  One channel of \<^verbatim>\<open>applyGamma\<close>:
  \<^verbatim>\<open>data[i] = Math.pow(data[i] / 255, 1 / gamma) * 255\<close>. For \<open>gamma = 0\<close> the
  exponent is \<^verbatim>\<open>Infinity\<close>, where \<^verbatim>\<open>Math.pow\<close> is 0 below base 1 and \<^verbatim>\<open>NaN\<close> at
  base 1, so 0 is stored; for a negative \<open>gamma\<close> and base 0 the power is
  \<^verbatim>\<open>Infinity\<close>, stored as 255. The quotient \<open>1 / gamma\<close> is the exact one: the
  definition is that of the code where the double quotient is finite and not 0, as it is
  at \<open>gamma = 1\<close> and on the range of the panel's slider, from 0.1 to 3. (For a subnormal
  \<open>gamma\<close> the double quotient is \<^verbatim>\<open>Infinity\<close>, for an infinite one it is 0.)
\<close>

definition gamma_channel :: "real \<Rightarrow> byte \<Rightarrow> byte" where
  "gamma_channel gamma v =
     (let gammaCorrection = 1 / gamma
      in if gamma = 0 then 0
         else if v = 0 \<and> gammaCorrection < 0 then 255
         else ToUint8Clamp ((real (unat v) / 255) powr gammaCorrection * 255))"

text \<open>
  One iteration of the loop. An index \<open>i + 1\<close> or \<open>i + 2\<close> beyond the array is
  read as \<^verbatim>\<open>undefined\<close> and the assignment to it does nothing; the list update at such
  an index does nothing either, whatever the value.
\<close>

definition gamma_step :: "real \<Rightarrow> nat \<Rightarrow> byte list \<Rightarrow> byte list" where
  "gamma_step gamma i d =
     (let d1 = d[i := gamma_channel gamma (d ! i)];
          d2 = d1[i + 1 := gamma_channel gamma (d1 ! (i + 1))]
      in d2[i + 2 := gamma_channel gamma (d2 ! (i + 2))])"

definition applyGamma :: "ImageData \<Rightarrow> real \<Rightarrow> ImageData" where
  "applyGamma imageData gamma =
     \<lparr> data = fold (gamma_step gamma) (by4 (length (data imageData))) (data imageData),
       width = width imageData,
       height = height imageData \<rparr>"

subsection \<open>Threshold\<close>

text \<open>
  The mean of the three colour channels is the exact one here. The code compares the
  double nearest to it; the two comparisons agree for every integer threshold, and on the
  means 0 and 255, which are doubles themselves.
\<close>

definition gray_at :: "byte list \<Rightarrow> nat \<Rightarrow> number" where
  "gray_at d i =
     (case (elem d i, elem d (i + 1), elem d (i + 2)) of
        (Some r, Some g, Some b) \<Rightarrow> Some ((r + g + b) / 3)
      | _ \<Rightarrow> None)"

definition threshold_step :: "real \<Rightarrow> nat \<Rightarrow> byte list \<Rightarrow> byte list" where
  "threshold_step threshold i d =
     (let v = (case gray_at d i of
                 Some gray \<Rightarrow> if gray > threshold then 255 else 0
               | None \<Rightarrow> 0)
      in d[i := v, i + 1 := v, i + 2 := v])"

definition applyThreshold :: "ImageData \<Rightarrow> real \<Rightarrow> ImageData" where
  "applyThreshold imageData threshold =
     \<lparr> data = fold (threshold_step threshold) (by4 (length (data imageData))) (data imageData),
       width = width imageData,
       height = height imageData \<rparr>"

text \<open>The value that a threshold step writes to the three colour channels of a pixel.\<close>

definition threshold_value :: "real \<Rightarrow> byte \<Rightarrow> byte \<Rightarrow> byte \<Rightarrow> byte" where
  "threshold_value t r g b =
     (if (real (unat r) + real (unat g) + real (unat b)) / 3 > t then 255 else 0)"

subsection \<open>Edge detection\<close>

definition sobelX :: "real list list" where
  "sobelX = [[-1, 0, 1], [-2, 0, 2], [-1, 0, 1]]"

definition sobelY :: "real list list" where
  "sobelY = [[-1, -2, -1], [0, 0, 0], [1, 2, 1]]"

text \<open>The body of the two inner loops: one neighbour added to \<open>(pixelX, pixelY)\<close>.\<close>

definition sobel_add ::
  "byte list \<Rightarrow> nat \<Rightarrow> nat \<Rightarrow> nat \<Rightarrow> int \<Rightarrow> int \<Rightarrow> number \<times> number \<Rightarrow> number \<times> number" where
  "sobel_add d w x y i j acc =
     (let idx = nat ((int y + i) * int w + (int x + j)) * 4;
          gray = gray_at d idx
      in (num_add (fst acc) (num_mul gray (Some (sobelX ! nat (i + 1) ! nat (j + 1)))),
          num_add (snd acc) (num_mul gray (Some (sobelY ! nat (i + 1) ! nat (j + 1))))))"

definition sobel_sums :: "byte list \<Rightarrow> nat \<Rightarrow> nat \<Rightarrow> nat \<Rightarrow> number \<times> number" where
  "sobel_sums d w x y =
     fold (\<lambda>i. fold (\<lambda>j. sobel_add d w x y i j) [-1, 0, 1]) [-1, 0, 1] (Some 0, Some 0)"

definition magnitude_at :: "byte list \<Rightarrow> nat \<Rightarrow> nat \<Rightarrow> nat \<Rightarrow> number" where
  "magnitude_at d w y x =
     (let (pixelX, pixelY) = sobel_sums d w x y
      in Math_sqrt (num_add (num_mul pixelX pixelX) (num_mul pixelY pixelY)))"

definition edge_pixel :: "byte list \<Rightarrow> nat \<Rightarrow> nat \<Rightarrow> nat \<Rightarrow> byte list \<Rightarrow> byte list" where
  "edge_pixel d w y x newData =
     (let magnitude = magnitude_at d w y x;
          idx = (y * w + x) * 4
      in newData[idx := store magnitude, idx + 1 := store magnitude,
                 idx + 2 := store magnitude, idx + 3 := 255])"

definition applyEdgeDetection :: "ImageData \<Rightarrow> ImageData" where
  "applyEdgeDetection imageData =
     (let d = data imageData; w = width imageData; h = height imageData;
          newData = replicate (length d) 0
      in \<lparr> data = fold (\<lambda>y. fold (edge_pixel d w y) [1..<w - 1]) [1..<h - 1] newData,
            width = w, height = h \<rparr>)"

subsection \<open>RGB shift\<close>

text \<open>
  \<^verbatim>\<open>newData[k] = data[i]\<close>: the byte that the assignment stores, which is 0 when
  \<open>i\<close> is outside the array (\<^verbatim>\<open>undefined\<close> converts to \<^verbatim>\<open>NaN\<close>, stored as 0).
  The shift amount is an integer, as the panel's slider delivers it.
\<close>

definition read_byte :: "byte list \<Rightarrow> int \<Rightarrow> byte" where
  "read_byte d i = (if 0 \<le> i \<and> i < int (length d) then d ! nat i else 0)"

definition redX :: "nat \<Rightarrow> nat \<Rightarrow> int \<Rightarrow> int" where
  "redX w x amount = min (int w - 1) (int x + amount)"

definition blueX :: "nat \<Rightarrow> nat \<Rightarrow> int \<Rightarrow> int" where
  "blueX w x amount = max 0 (int x - amount)"

definition shift_pixel :: "byte list \<Rightarrow> nat \<Rightarrow> int \<Rightarrow> nat \<Rightarrow> nat \<Rightarrow> byte list \<Rightarrow> byte list" where
  "shift_pixel d w amount y x newData =
     (let idx = (y * w + x) * 4;
          redIdx = (int y * int w + redX w x amount) * 4;
          blueIdx = (int y * int w + blueX w x amount) * 4
      in newData[idx := read_byte d redIdx,
                 idx + 1 := read_byte d (int idx + 1),
                 idx + 2 := read_byte d (blueIdx + 2),
                 idx + 3 := read_byte d (int idx + 3)])"

definition applyRGBShift :: "ImageData \<Rightarrow> int \<Rightarrow> ImageData" where
  "applyRGBShift imageData amount =
     (let d = data imageData; w = width imageData; h = height imageData;
          newData = replicate (length d) 0
      in \<lparr> data = fold (\<lambda>y. fold (shift_pixel d w amount y) [0..<w]) [0..<h] newData,
            width = w, height = h \<rparr>)"

subsection \<open>Dithering\<close>

text \<open>
  \<^verbatim>\<open>data[k] = Math.min(255, Math.max(0, data[k] + error * weight / 16))\<close>.
\<close>

definition diffuse :: "number \<Rightarrow> real \<Rightarrow> nat \<Rightarrow> byte list \<Rightarrow> byte list" where
  "diffuse error weight k d =
     d[k := store (min255_max0 (num_add (elem d k) (map_option (\<lambda>e. e * weight / 16) error)))]"

definition dither_channel :: "nat \<Rightarrow> nat \<Rightarrow> nat \<Rightarrow> nat \<Rightarrow> nat \<Rightarrow> byte list \<Rightarrow> byte list" where
  "dither_channel w h y x c d =
     (let idx = (y * w + x) * 4;
          oldPixel = elem d (idx + c);
          newPixel = (case oldPixel of Some v \<Rightarrow> if v > 128 then 255 else 0 | None \<Rightarrow> 0);
          d1 = d[idx + c := ToUint8Clamp newPixel];
          error = map_option (\<lambda>v. v - newPixel) oldPixel;
          d2 = (if x + 1 < w then diffuse error 7 ((y * w + (x + 1)) * 4 + c) d1 else d1)
      in if y + 1 < h
         then let d3 = (if x > 0 then diffuse error 3 (((y + 1) * w + (x - 1)) * 4 + c) d2 else d2);
                  d4 = diffuse error 5 (((y + 1) * w + x) * 4 + c) d3
              in (if x + 1 < w then diffuse error 1 (((y + 1) * w + (x + 1)) * 4 + c) d4 else d4)
         else d2)"

definition dither_pixel :: "nat \<Rightarrow> nat \<Rightarrow> nat \<Rightarrow> nat \<Rightarrow> byte list \<Rightarrow> byte list" where
  "dither_pixel w h y x d = fold (dither_channel w h y x) [0, 1, 2] d"

definition applyDithering :: "ImageData \<Rightarrow> ImageData" where
  "applyDithering imageData =
     (let w = width imageData; h = height imageData
      in \<lparr> data = fold (\<lambda>y. fold (dither_pixel w h y) [0..<w]) [0..<h] (data imageData),
            width = w, height = h \<rparr>)"

subsection \<open>Grain\<close>

text \<open>
  \<^verbatim>\<open>applyGrainEffect\<close> of the \<^verbatim>\<open>ColorGrid\<close> component, on the array it reads from
  the canvas and writes back. \<^verbatim>\<open>Math.random\<close> is a sequence of draws \<open>random\<close> and the
  number of draws made so far; each call takes the next draw. The noise and the sums are
  the exact ones; the code computes them in doubles, which can move a sum across the
  middle between two integers and so change the byte stored by one.
\<close>

definition grain_step ::
  "(nat \<Rightarrow> real) \<Rightarrow> real \<Rightarrow> nat \<Rightarrow> byte list \<times> nat \<Rightarrow> byte list \<times> nat" where
  "grain_step random opacity i s =
     (let d = fst s; drawn = snd s;
          noise = (random drawn - 1 / 2) * (opacity / 100) * 255;
          d1 = d[i := store (max0_min255 (num_add (elem d i) (Some noise)))];
          d2 = d1[i + 1 := store (max0_min255 (num_add (elem d1 (i + 1)) (Some noise)))];
          d3 = d2[i + 2 := store (max0_min255 (num_add (elem d2 (i + 2)) (Some noise)))]
      in (d3, drawn + 1))"

definition applyGrainEffect ::
  "(nat \<Rightarrow> real) \<Rightarrow> nat \<Rightarrow> ImageData \<Rightarrow> real \<Rightarrow> ImageData \<times> nat" where
  "applyGrainEffect random drawn imageData opacity =
     (let r = fold (grain_step random opacity) (by4 (length (data imageData)))
                (data imageData, drawn)
      in (\<lparr> data = fst r, width = width imageData, height = height imageData \<rparr>, snd r))"

text \<open>
  The grain of the specification, for comparison: a separate draw for each of the three
  colour channels of a pixel.
\<close>

definition spec_grain_step ::
  "(nat \<Rightarrow> real) \<Rightarrow> real \<Rightarrow> nat \<Rightarrow> byte list \<times> nat \<Rightarrow> byte list \<times> nat" where
  "spec_grain_step random opacity i s =
     (let d = fst s; drawn = snd s;
          noise = (\<lambda>c. (random (drawn + c) - 1 / 2) * (opacity / 100) * 255);
          d1 = d[i := store (max0_min255 (num_add (elem d i) (Some (noise 0))))];
          d2 = d1[i + 1 := store (max0_min255 (num_add (elem d1 (i + 1)) (Some (noise 1))))];
          d3 = d2[i + 2 := store (max0_min255 (num_add (elem d2 (i + 2)) (Some (noise 2))))]
      in (d3, drawn + 3))"

definition spec_grain ::
  "(nat \<Rightarrow> real) \<Rightarrow> nat \<Rightarrow> ImageData \<Rightarrow> real \<Rightarrow> ImageData \<times> nat" where
  "spec_grain random drawn imageData opacity =
     (let r = fold (spec_grain_step random opacity) (by4 (length (data imageData)))
                (data imageData, drawn)
      in (\<lparr> data = fst r, width = width imageData, height = height imageData \<rparr>, snd r))"

subsection \<open>Effect descriptors\<close>

text \<open>The field \<^verbatim>\<open>id\<close> of a descriptor is \<open>id'\<close> here, \<open>id\<close> being the identity function.\<close>

datatype EffectType =
  Blur | Grain | Gamma | Threshold | Stippling | Halftone | EdgeDetection | Vignette
  | RgbShift | CrtScreen | LedScreen | Dithering

datatype shape = Circle | Square

text \<open>
  \<^verbatim>\<open>EffectConfig\<close>: every sub-record is optional. A sub-record with one field is the
  field's value; the others are tuples of their fields in the order of the interface.
\<close>

record EffectConfig =
  blur :: "real option"
  grain :: "real option"
  gamma :: "real option"
  threshold :: "real option"
  stippling :: "(real \<times> real) option"
  halftone :: "(real \<times> real \<times> shape) option"
  vignette :: "real option"
  rgbShift :: "int option"
  crtScreen :: "(real \<times> real) option"
  ledScreen :: "(real \<times> real) option"

record ImageEffect =
  id' :: string
  type :: EffectType
  enabled :: bool
  config :: EffectConfig

definition emptyConfig :: EffectConfig where
  "emptyConfig = \<lparr> blur = None, grain = None, gamma = None, threshold = None,
     stippling = None, halftone = None, vignette = None, rgbShift = None,
     crtScreen = None, ledScreen = None \<rparr>"

definition defaultConfigs :: "EffectType \<Rightarrow> EffectConfig" where
  "defaultConfigs t =
     (case t of
        Blur \<Rightarrow> emptyConfig \<lparr> blur := Some 2 \<rparr>
      | Grain \<Rightarrow> emptyConfig \<lparr> grain := Some 30 \<rparr>
      | Gamma \<Rightarrow> emptyConfig \<lparr> gamma := Some (12 / 10) \<rparr>
      | Threshold \<Rightarrow> emptyConfig \<lparr> threshold := Some 128 \<rparr>
      | Stippling \<Rightarrow> emptyConfig \<lparr> stippling := Some (50, 2) \<rparr>
      | Halftone \<Rightarrow> emptyConfig \<lparr> halftone := Some (4, 45, Circle) \<rparr>
      | EdgeDetection \<Rightarrow> emptyConfig
      | Vignette \<Rightarrow> emptyConfig \<lparr> vignette := Some 50 \<rparr>
      | RgbShift \<Rightarrow> emptyConfig \<lparr> rgbShift := Some 3 \<rparr>
      | CrtScreen \<Rightarrow> emptyConfig \<lparr> crtScreen := Some (30, 10) \<rparr>
      | LedScreen \<Rightarrow> emptyConfig \<lparr> ledScreen := Some (3, 1) \<rparr>
      | Dithering \<Rightarrow> emptyConfig)"

definition type_name :: "EffectType \<Rightarrow> string" where
  "type_name t =
     (case t of
        Blur \<Rightarrow> ''blur'' | Grain \<Rightarrow> ''grain'' | Gamma \<Rightarrow> ''gamma''
      | Threshold \<Rightarrow> ''threshold'' | Stippling \<Rightarrow> ''stippling'' | Halftone \<Rightarrow> ''halftone''
      | EdgeDetection \<Rightarrow> ''edge-detection'' | Vignette \<Rightarrow> ''vignette''
      | RgbShift \<Rightarrow> ''rgb-shift'' | CrtScreen \<Rightarrow> ''crt-screen''
      | LedScreen \<Rightarrow> ''led-screen'' | Dithering \<Rightarrow> ''dithering'')"

text \<open>\<open>now\<close> is the decimal text of \<^verbatim>\<open>Date.now()\<close>.\<close>

definition createDefaultEffect :: "EffectType \<Rightarrow> string \<Rightarrow> ImageEffect" where
  "createDefaultEffect t now =
     \<lparr> id' = type_name t @ ''-'' @ now, type = t, enabled = True, config = defaultConfigs t \<rparr>"

text \<open>
  \<^verbatim>\<open>sub?.field || dflt\<close>: the default replaces a missing sub-record and the value 0.
\<close>

definition or_default :: "'a::zero option \<Rightarrow> 'a \<Rightarrow> 'a" where
  "or_default v dflt = (case v of None \<Rightarrow> dflt | Some x \<Rightarrow> if x = 0 then dflt else x)"

subsection \<open>Canvases\<close>

text \<open>
  A canvas element: its size, its bitmap (RGBA bytes, row by row), the blur radii of its
  CSS filter (\<^verbatim>\<open>style.filter\<close> is the text \<^verbatim>\<open>blur(r1px) blur(r2px) ...\<close>, empty by
  default) and whether \<^verbatim>\<open>getContext('2d')\<close> yields a context. The document holds the
  canvas elements by reference; references are handed out in increasing order.
  Conversions between the bitmap and premultiplied alpha are not modelled.
\<close>

record canvas =
  canvas_width :: nat
  canvas_height :: nat
  bitmap :: "byte list"
  style_filter :: "real list"
  context2d :: bool

record document =
  canvases :: "nat \<Rightarrow> canvas option"
  fresh :: nat
  provides2d :: bool

datatype error = TypeError | IndexSizeError

definition update_canvas :: "nat \<Rightarrow> (canvas \<Rightarrow> canvas) \<Rightarrow> document \<Rightarrow> document" where
  "update_canvas r f doc = doc \<lparr> canvases := (canvases doc)(r := map_option f (canvases doc r)) \<rparr>"

text \<open>\<^verbatim>\<open>document.createElement('canvas')\<close>: a new 300 by 150 canvas, transparent black.\<close>

definition createElement_canvas :: "document \<Rightarrow> nat \<times> document" where
  "createElement_canvas doc =
     (fresh doc,
      doc \<lparr> canvases := (canvases doc)(fresh doc \<mapsto>
              \<lparr> canvas_width = 300, canvas_height = 150,
                bitmap = replicate (300 * 150 * 4) 0,
                style_filter = [], context2d = provides2d doc \<rparr>),
            fresh := Suc (fresh doc) \<rparr>)"

text \<open>Setting the width or the height of a canvas clears its bitmap.\<close>

definition set_width :: "nat \<Rightarrow> canvas \<Rightarrow> canvas" where
  "set_width w cv = cv \<lparr> canvas_width := w, bitmap := replicate (w * canvas_height cv * 4) 0 \<rparr>"

definition set_height :: "nat \<Rightarrow> canvas \<Rightarrow> canvas" where
  "set_height h cv = cv \<lparr> canvas_height := h, bitmap := replicate (canvas_width cv * h * 4) 0 \<rparr>"

text \<open>
  \<^verbatim>\<open>ctx.getImageData(0, 0, canvas.width, canvas.height)\<close>: a copy of the bitmap; the
  platform raises \<^verbatim>\<open>IndexSizeError\<close> when the width or the height is 0.
\<close>

definition getImageData :: "canvas \<Rightarrow> error + ImageData" where
  "getImageData cv =
     (if canvas_width cv = 0 \<or> canvas_height cv = 0 then Inl IndexSizeError
      else Inr \<lparr> data = bitmap cv, width = canvas_width cv, height = canvas_height cv \<rparr>)"

text \<open>
  \<^verbatim>\<open>ctx.putImageData(imageData, 0, 0)\<close>: the pixels of the image that fall inside the
  canvas replace those of the bitmap.
\<close>

definition putImageData :: "ImageData \<Rightarrow> canvas \<Rightarrow> canvas" where
  "putImageData img cv =
     cv \<lparr> bitmap :=
       map (\<lambda>k. let x = (k div 4) mod canvas_width cv; y = (k div 4) div canvas_width cv
                 in if x < width img \<and> y < height img
                    then read_byte (data img) (int ((y * width img + x) * 4 + k mod 4))
                    else bitmap cv ! k)
         [0..<length (bitmap cv)] \<rparr>"

subsection \<open>The pipeline\<close>

definition apply_effect :: "ImageEffect \<Rightarrow> ImageData \<Rightarrow> ImageData" where
  "apply_effect effect processedData =
     (if \<not> enabled effect then processedData
      else case type effect of
             Gamma \<Rightarrow> applyGamma processedData (or_default (gamma (config effect)) 1)
           | Threshold \<Rightarrow> applyThreshold processedData (or_default (threshold (config effect)) 128)
           | EdgeDetection \<Rightarrow> applyEdgeDetection processedData
           | RgbShift \<Rightarrow> applyRGBShift processedData (or_default (rgbShift (config effect)) 3)
           | Dithering \<Rightarrow> applyDithering processedData
           | _ \<Rightarrow> processedData)"

definition blur_filters :: "ImageEffect list \<Rightarrow> real list" where
  "blur_filters effects =
     concat (map (\<lambda>effect. if enabled effect \<and> type effect = Blur
                            then [or_default (blur (config effect)) 2] else []) effects)"

definition applyCanvasEffects :: "ImageEffect list \<Rightarrow> canvas \<Rightarrow> canvas" where
  "applyCanvasEffects effects cv =
     (let filters = blur_filters effects
      in if length filters > 0 then cv \<lparr> style_filter := filters \<rparr> else cv)"

definition applyEffectsToCanvas ::
  "document \<Rightarrow> nat \<Rightarrow> ImageEffect list \<Rightarrow> error + nat \<times> document" where
  "applyEffectsToCanvas doc canvas effects =
     (case canvases doc canvas of
        None \<Rightarrow> Inl TypeError
      | Some cv \<Rightarrow>
          if \<not> context2d cv then Inr (canvas, doc)
          else case getImageData cv of
                 Inl e \<Rightarrow> Inl e
               | Inr imageData \<Rightarrow>
                   let processedData = fold apply_effect effects imageData;
                       (processedCanvas, doc1) = createElement_canvas doc;
                       doc2 = update_canvas processedCanvas (set_width (canvas_width cv)) doc1;
                       doc3 = update_canvas processedCanvas (set_height (canvas_height cv)) doc2;
                       processedCtx = (case canvases doc3 processedCanvas of
                                         None \<Rightarrow> False | Some pc \<Rightarrow> context2d pc)
                   in if processedCtx
                      then Inr (processedCanvas,
                             update_canvas processedCanvas (applyCanvasEffects effects)
                               (update_canvas processedCanvas (putImageData processedData) doc3))
                      else Inr (processedCanvas, doc3))"

section \<open>Properties\<close>

subsection \<open>Bytes\<close>

lemma read_byte_nat: "k < length d \<Longrightarrow> read_byte d (int k) = d ! k"
  by (simp add: read_byte_def)

lemma byte_real_bounds: "0 \<le> real (unat v)" "real (unat v) \<le> 255" for v :: byte
proof -
  show "0 \<le> real (unat v)" by (rule of_nat_0_le_iff)
  have "unat v < 256" using unsigned_less [of v] by simp
  then have "unat v \<le> 255" by simp
  then have "real (unat v) \<le> real 255" by (rule of_nat_mono)
  then show "real (unat v) \<le> 255" by (simp only: of_nat_numeral)
qed

lemma ToUint8Clamp_of_int:
  assumes "0 \<le> k" and "k \<le> 255"
  shows "ToUint8Clamp (real_of_int k) = word_of_int k"
proof -
  have "min 255 (max 0 (real_of_int k)) = real_of_int k"
    using assms by simp
  then show ?thesis
    unfolding ToUint8Clamp_def Let_def by simp
qed

lemma ToUint8Clamp_byte: "ToUint8Clamp (real (unat v)) = v" for v :: byte
proof -
  have "unat v < 256" using unsigned_less [of v] by simp
  then have "0 \<le> int (unat v)" "int (unat v) \<le> 255"
    by (simp_all del: of_nat_unat)
  from ToUint8Clamp_of_int [OF this]
  have "ToUint8Clamp (real_of_int (int (unat v))) = word_of_int (int (unat v))" .
  moreover have "real_of_int (int (unat v)) = real (unat v)" by (rule of_int_of_nat_eq)
  moreover have "word_of_int (int (unat v)) = v" by simp
  ultimately show ?thesis by (simp only:)
qed

lemma ToUint8Clamp_0_255 [simp]: "ToUint8Clamp 0 = 0" "ToUint8Clamp 255 = 255"
  by (simp_all add: ToUint8Clamp_def Let_def)

subsection \<open>Loops over the pixels of an array\<close>

text \<open>A loop over the pixels whose step changes the bytes of its own pixel only, and
  decides them from these bytes alone.\<close>

lemma pixel_index:
  "c < 4 \<Longrightarrow> (4 * p + c) div 4 = p" "c < 4 \<Longrightarrow> (4 * p + c) mod 4 = c"
  "p < n \<Longrightarrow> c < 4 \<Longrightarrow> 4 * p + c < n * 4"
  for c p n :: nat
  by simp_all

lemma pixel_mod4: "c < 4 \<Longrightarrow> (q * 4 + c) mod 4 = c" for c q :: nat
  by simp

lemma pixel_coords:
  fixes x y w :: nat
  assumes "x < w"
  shows "(y * w + x) div w = y" "(y * w + x) mod w = x"
  using assms by simp_all

lemma pixel_in_image:
  fixes x y w h :: nat
  assumes "x < w" and "y < h"
  shows "y * w + x < w * h"
proof -
  have "y * w + x < y * w + w" using assms(1) by simp
  also have "\<dots> = (y + 1) * w" by simp
  also have "\<dots> \<le> h * w" using assms(2) by (intro mult_le_mono1) simp
  finally show ?thesis by (simp add: mult.commute)
qed

lemma by4_mult4: "by4 (n * 4) = map (\<lambda>p. 4 * p) [0..<n]"
  by (simp add: by4_def)

lemma length_fold_step:
  assumes "\<And>i d. length (step i d) = length d"
  shows "length (fold step js d) = length d"
  by (induction js arbitrary: d) (simp_all add: assms)

lemma fold_pixels_nth:
  assumes len: "\<And>i d. length (step i d) = length d"
    and frame: "\<And>p d k. k div 4 \<noteq> p \<Longrightarrow> step (4 * p) d ! k = d ! k"
    and loc: "\<And>p d d' c. length d = length d' \<Longrightarrow> 4 * p + 3 < length d \<Longrightarrow> c < 4 \<Longrightarrow>
                (\<forall>j<4. d ! (4 * p + j) = d' ! (4 * p + j)) \<Longrightarrow>
                step (4 * p) d ! (4 * p + c) = step (4 * p) d' ! (4 * p + c)"
  shows "distinct ps \<Longrightarrow> \<forall>p\<in>set ps. 4 * p + 3 < length d \<Longrightarrow>
         fold step (map (\<lambda>p. 4 * p) ps) d ! k =
           (if k div 4 \<in> set ps then step (4 * (k div 4)) d ! k else d ! k)"
proof (induction ps arbitrary: d)
  case Nil
  then show ?case by simp
next
  case (Cons p ps)
  have IH: "fold step (map (\<lambda>p. 4 * p) ps) (step (4 * p) d) ! k =
      (if k div 4 \<in> set ps then step (4 * (k div 4)) (step (4 * p) d) ! k
       else step (4 * p) d ! k)"
    using Cons.prems by (intro Cons.IH) (simp_all add: len)
  show ?case
  proof (cases "k div 4 = p")
    case True
    with Cons.prems IH show ?thesis by auto
  next
    case False
    show ?thesis
    proof (cases "k div 4 \<in> set ps")
      case True
      have "\<forall>j<4. step (4 * p) d ! (4 * (k div 4) + j) = d ! (4 * (k div 4) + j)"
        using False by (auto intro!: frame)
      moreover have "4 * (k div 4) + 3 < length d"
        using True Cons.prems by simp
      ultimately have "step (4 * (k div 4)) (step (4 * p) d) ! (4 * (k div 4) + k mod 4)
                 = step (4 * (k div 4)) d ! (4 * (k div 4) + k mod 4)"
        by (intro loc) (simp_all add: len)
      with True False IH show ?thesis by simp
    next
      case False
      with \<open>k div 4 \<noteq> p\<close> IH show ?thesis by (simp add: frame)
    qed
  qed
qed

text \<open>Two nested loops, over the rows and over the columns of an image, that write
  one pixel of a new array in each step.\<close>

lemma fold_row_nth:
  fixes px :: "nat \<Rightarrow> nat \<Rightarrow> byte list \<Rightarrow> byte list"
  assumes len: "\<And>y x nd. length (px y x nd) = length nd"
    and frame: "\<And>y x nd j. j div 4 \<noteq> y * w + x \<Longrightarrow> px y x nd ! j = nd ! j"
    and self: "\<And>y x nd c. c < 4 \<Longrightarrow> (y * w + x) * 4 + c < length nd \<Longrightarrow>
                 px y x nd ! ((y * w + x) * 4 + c) = val y x c"
  shows "\<forall>x\<in>set xs. x < w \<Longrightarrow> j < length nd \<Longrightarrow>
         fold (px y) xs nd ! j =
           (if (j div 4) div w = y \<and> (j div 4) mod w \<in> set xs
            then val y ((j div 4) mod w) (j mod 4) else nd ! j)"
proof (induction xs arbitrary: nd)
  case Nil
  then show ?case by simp
next
  case (Cons x xs)
  have x: "x < w" using Cons.prems by simp
  have IH: "fold (px y) xs (px y x nd) ! j =
           (if (j div 4) div w = y \<and> (j div 4) mod w \<in> set xs
            then val y ((j div 4) mod w) (j mod 4) else px y x nd ! j)"
    using Cons.prems by (intro Cons.IH) (simp_all add: len)
  show ?case
  proof (cases "j div 4 = y * w + x")
    case True
    then have j: "j = (y * w + x) * 4 + j mod 4"
      by (metis div_mult_mod_eq)
    have "px y x nd ! ((y * w + x) * 4 + j mod 4) = val y x (j mod 4)"
      using Cons.prems(2) j by (intro self) simp_all
    with j have "px y x nd ! j = val y x (j mod 4)" by simp
    with IH True x show ?thesis by (simp add: pixel_coords)
  next
    case False
    then have "\<not> ((j div 4) div w = y \<and> (j div 4) mod w = x)"
      by (metis div_mult_mod_eq)
    with IH False show ?thesis by (auto simp: frame)
  qed
qed

lemma fold_rows_nth:
  fixes px :: "nat \<Rightarrow> nat \<Rightarrow> byte list \<Rightarrow> byte list"
  assumes len: "\<And>y x nd. length (px y x nd) = length nd"
    and frame: "\<And>y x nd j. j div 4 \<noteq> y * w + x \<Longrightarrow> px y x nd ! j = nd ! j"
    and self: "\<And>y x nd c. c < 4 \<Longrightarrow> (y * w + x) * 4 + c < length nd \<Longrightarrow>
                 px y x nd ! ((y * w + x) * 4 + c) = val y x c"
    and xs: "\<forall>x\<in>set xs. x < w"
  shows "j < length nd \<Longrightarrow>
         fold (\<lambda>y. fold (px y) xs) ys nd ! j =
           (if (j div 4) div w \<in> set ys \<and> (j div 4) mod w \<in> set xs
            then val ((j div 4) div w) ((j div 4) mod w) (j mod 4) else nd ! j)"
proof (induction ys arbitrary: nd)
  case Nil
  then show ?case by simp
next
  case (Cons y ys)
  have l: "length (fold (px y) xs nd) = length nd"
    by (induction xs arbitrary: nd) (simp_all add: len)
  have IH: "fold (\<lambda>y. fold (px y) xs) ys (fold (px y) xs nd) ! j =
           (if (j div 4) div w \<in> set ys \<and> (j div 4) mod w \<in> set xs
            then val ((j div 4) div w) ((j div 4) mod w) (j mod 4) else fold (px y) xs nd ! j)"
    using Cons.prems by (intro Cons.IH) (simp add: l)
  have row: "fold (px y) xs nd ! j =
           (if (j div 4) div w = y \<and> (j div 4) mod w \<in> set xs
            then val y ((j div 4) mod w) (j mod 4) else nd ! j)"
    using fold_row_nth [of px w val xs j nd y, OF len frame self xs] Cons.prems by simp
  show ?case
    using IH row by auto
qed

lemma length_fold_rows:
  fixes px :: "nat \<Rightarrow> nat \<Rightarrow> byte list \<Rightarrow> byte list"
  assumes len: "\<And>y x nd. length (px y x nd) = length nd"
  shows "length (fold (\<lambda>y. fold (px y) xs) ys nd) = length nd"
proof -
  have "length (fold (px y) xs nd) = length nd" for y nd
    by (induction xs arbitrary: nd) (simp_all add: len)
  then show ?thesis
    by (induction ys arbitrary: nd) simp_all
qed

subsection \<open>Threshold\<close>

lemma length_threshold_step [simp]: "length (threshold_step t i d) = length d"
  by (simp add: threshold_step_def Let_def)

lemma threshold_step_nth:
  assumes "4 * p + 3 < length d"
  shows "threshold_step t (4 * p) d ! k =
           (if k div 4 = p \<and> k mod 4 < 3
            then threshold_value t (d ! (4 * p)) (d ! (4 * p + 1)) (d ! (4 * p + 2))
            else d ! k)"
proof -
  have "k = 4 * p \<or> k = 4 * p + 1 \<or> k = 4 * p + 2" if "k div 4 = p" "k mod 4 < 3"
    using that by presburger
  moreover have "k \<noteq> 4 * p \<and> k \<noteq> 4 * p + 1 \<and> k \<noteq> 4 * p + 2" if "\<not> (k div 4 = p \<and> k mod 4 < 3)"
    using that by presburger
  ultimately show ?thesis
    using assms
    by (auto simp: threshold_step_def gray_at_def elem_def threshold_value_def Let_def)
qed

lemma length_applyThreshold [simp]:
  "length (data (applyThreshold img t)) = length (data img)"
  by (simp add: applyThreshold_def length_fold_step)

lemma applyThreshold_pixel:
  assumes "length (data img) = n * 4" and "p < n" and "c < 4"
  shows "data (applyThreshold img t) ! (4 * p + c) =
           (if c < 3
            then threshold_value t (data img ! (4 * p)) (data img ! (4 * p + 1)) (data img ! (4 * p + 2))
            else data img ! (4 * p + c))"
proof -
  have "fold (threshold_step t) (map (\<lambda>p. 4 * p) [0..<n]) (data img) ! (4 * p + c) =
          (if (4 * p + c) div 4 \<in> set [0..<n]
           then threshold_step t (4 * ((4 * p + c) div 4)) (data img) ! (4 * p + c)
           else data img ! (4 * p + c))"
  proof (rule fold_pixels_nth)
    fix p d k show "k div 4 \<noteq> p \<Longrightarrow> threshold_step t (4 * p) d ! k = d ! k"
      by (simp add: threshold_step_def Let_def) 
  next
    fix p c :: nat and d d' :: "byte list"
    assume a: "length d = length d'" "4 * p + 3 < length d" "c < 4"
      and e: "\<forall>j<4. d ! (4 * p + j) = d' ! (4 * p + j)"
    have "d ! (4 * p) = d' ! (4 * p)" "d ! (4 * p + 1) = d' ! (4 * p + 1)"
      "d ! (4 * p + 2) = d' ! (4 * p + 2)" "d ! (4 * p + c) = d' ! (4 * p + c)"
      using e [rule_format, of 0] e [rule_format, of 1] e [rule_format, of 2]
        e [rule_format, of c] \<open>c < 4\<close> by simp_all
    then show "threshold_step t (4 * p) d ! (4 * p + c) = threshold_step t (4 * p) d' ! (4 * p + c)"
      using a by (simp add: threshold_step_nth)
  next
    show "\<forall>p\<in>set [0..<n]. 4 * p + 3 < length (data img)"
      using assms by auto
  qed simp_all
  moreover have "4 * p + 3 < length (data img)"
    using assms by auto
  ultimately show ?thesis
    using assms by (simp add: applyThreshold_def by4_mult4 threshold_step_nth pixel_index)
qed

lemma channel_sum_bounds:
  "0 \<le> real (unat r) + real (unat g) + real (unat b)"
  "real (unat r) + real (unat g) + real (unat b) \<le> 765"
  for r g b :: byte
proof -
  show "0 \<le> real (unat r) + real (unat g) + real (unat b)"
    by (intro add_nonneg_nonneg of_nat_0_le_iff)
  have "unat r < 256" "unat g < 256" "unat b < 256"
    using unsigned_less [of r] unsigned_less [of g] unsigned_less [of b] by simp_all
  then have "unat r + unat g + unat b \<le> 765" by linarith
  then have "real (unat r + unat g + unat b) \<le> real 765"
    by (rule of_nat_mono)
  then show "real (unat r) + real (unat g) + real (unat b) \<le> 765"
    by (simp only: of_nat_add of_nat_numeral)
qed

lemma threshold_value_fixed:
  "threshold_value t (threshold_value t r g b) (threshold_value t r g b) (threshold_value t r g b)
     = threshold_value t r g b"
proof -
  define s where "s = real (unat r) + real (unat g) + real (unat b)"
  have s: "0 \<le> s" "s \<le> 765"
    unfolding s_def by (rule channel_sum_bounds)+
  have v: "threshold_value t r g b = (if s / 3 > t then 255 else 0)"
    by (simp only: threshold_value_def s_def)
  show ?thesis
  proof (cases "s / 3 > t")
    case True
    with s have "t < 255" by simp
    with True v show ?thesis by (simp add: threshold_value_def)
  next
    case False
    with s have "0 \<le> t" by simp
    with False v show ?thesis by (simp add: threshold_value_def)
  qed
qed

lemma threshold_idem:
  assumes "valid img"
  shows "applyThreshold (applyThreshold img t) t = applyThreshold img t"
proof -
  let ?n = "width img * height img"
  have len: "length (data img) = ?n * 4" using assms by (simp add: valid_def)
  have len': "length (data (applyThreshold img t)) = ?n * 4" using len by simp
  have "data (applyThreshold (applyThreshold img t) t) = data (applyThreshold img t)"
  proof (rule nth_equalityI)
    fix k assume "k < length (data (applyThreshold (applyThreshold img t) t))"
    then have k: "k < ?n * 4" using len by simp
    define p c where "p = k div 4" and "c = k mod 4"
    then have pc: "k = 4 * p + c" "c < 4" "p < ?n"
      using k by auto
    have "data (applyThreshold (applyThreshold img t) t) ! (4 * p + c)
            = data (applyThreshold img t) ! (4 * p + c)"
      using applyThreshold_pixel [OF len' \<open>p < ?n\<close> \<open>c < 4\<close>, of t]
        applyThreshold_pixel [OF len \<open>p < ?n\<close> \<open>c < 4\<close>, of t]
        applyThreshold_pixel [OF len \<open>p < ?n\<close>, of 0 t]
        applyThreshold_pixel [OF len \<open>p < ?n\<close>, of 1 t]
        applyThreshold_pixel [OF len \<open>p < ?n\<close>, of 2 t]
      by (simp add: threshold_value_fixed)
    then show "data (applyThreshold (applyThreshold img t) t) ! k = data (applyThreshold img t) ! k"
      using pc by simp
  qed simp
  then show ?thesis
    by (simp add: applyThreshold_def)
qed

text \<open>
  C3: on a valid image, a second threshold pass with the same parameter changes nothing,
  for every real threshold and so for those in \<open>[0, 255]\<close>: after one pass the mean of a
  pixel is 0 or 255, which the comparison treats alike in reals and in doubles. For an
  integer threshold \<open>k\<close> in \<open>[0, 255]\<close>, where the comparison of the double mean is the
  comparison of the exact mean, a pass sets the three colour channels of every pixel to
  255 when the mean of the three is strictly above \<open>k\<close> and to 0 otherwise, and leaves
  alpha as it is.
\<close>

theorem applyThreshold_idempotent:
  assumes "valid img"
  shows "applyThreshold (applyThreshold img t) t = applyThreshold img t
    \<and> (0 \<le> k \<and> k \<le> 255 \<longrightarrow>
        (\<forall>p < width img * height img.
          let d = data img; d' = data (applyThreshold img (real_of_int k));
              v = (if (real (unat (d ! (4 * p))) + real (unat (d ! (4 * p + 1)))
                       + real (unat (d ! (4 * p + 2)))) / 3 > real_of_int k then 255 else 0)
          in d' ! (4 * p) = v \<and> d' ! (4 * p + 1) = v \<and> d' ! (4 * p + 2) = v
             \<and> d' ! (4 * p + 3) = d ! (4 * p + 3)))"
proof -
  have len: "length (data img) = width img * height img * 4"
    using assms by (simp add: valid_def)
  have "\<forall>p < width img * height img.
          let d = data img; d' = data (applyThreshold img (real_of_int k));
              v = (if (real (unat (d ! (4 * p))) + real (unat (d ! (4 * p + 1)))
                       + real (unat (d ! (4 * p + 2)))) / 3 > real_of_int k then 255 else 0)
          in d' ! (4 * p) = v \<and> d' ! (4 * p + 1) = v \<and> d' ! (4 * p + 2) = v
             \<and> d' ! (4 * p + 3) = d ! (4 * p + 3)"
  proof (intro allI impI)
    fix p assume p: "p < width img * height img"
    show "let d = data img; d' = data (applyThreshold img (real_of_int k));
              v = (if (real (unat (d ! (4 * p))) + real (unat (d ! (4 * p + 1)))
                       + real (unat (d ! (4 * p + 2)))) / 3 > real_of_int k then 255 else 0)
          in d' ! (4 * p) = v \<and> d' ! (4 * p + 1) = v \<and> d' ! (4 * p + 2) = v
             \<and> d' ! (4 * p + 3) = d ! (4 * p + 3)"
      using applyThreshold_pixel [OF len p, of 0 "real_of_int k"]
        applyThreshold_pixel [OF len p, of 1 "real_of_int k"]
        applyThreshold_pixel [OF len p, of 2 "real_of_int k"]
        applyThreshold_pixel [OF len p, of 3 "real_of_int k"]
      by (simp add: threshold_value_def Let_def)
  qed
  with threshold_idem [OF assms] show ?thesis by blast
qed

theorem applyThreshold_idempotent_witness:
  "valid \<lparr> data = [10, 20, 30, 255, 200, 100, 50, 7], width = 2, height = 1 \<rparr>
   \<and> (0 :: int) \<le> 100 \<and> (100 :: int) \<le> 255 \<and> (1 :: nat) < 2 * 1
   \<and> applyThreshold (applyThreshold
        \<lparr> data = [10, 20, 30, 255, 200, 100, 50, 7], width = 2, height = 1 \<rparr> 100) 100
     = applyThreshold \<lparr> data = [10, 20, 30, 255, 200, 100, 50, 7], width = 2, height = 1 \<rparr> 100
   \<and> data (applyThreshold
        \<lparr> data = [10, 20, 30, 255, 200, 100, 50, 7], width = 2, height = 1 \<rparr> 100) ! 4 = 255
   \<and> data (applyThreshold
        \<lparr> data = [10, 20, 30, 255, 200, 100, 50, 7], width = 2, height = 1 \<rparr> 100) ! 7 = 7"
proof -
  let ?img = "\<lparr> data = [10, 20, 30, 255, 200, 100, 50, 7], width = 2, height = 1 \<rparr>"
  have v: "valid ?img" by (simp add: valid_def)
  have k: "(0 :: int) \<le> 100 \<and> (100 :: int) \<le> 255" by simp
  have p: "(1 :: nat) < width ?img * height ?img" by simp
  from applyThreshold_idempotent [OF v, of 100 100]
  have i: "applyThreshold (applyThreshold ?img 100) 100 = applyThreshold ?img 100"
    and b: "0 \<le> (100 :: int) \<and> (100 :: int) \<le> 255 \<longrightarrow>
        (\<forall>p < width ?img * height ?img.
          let d = data ?img; d' = data (applyThreshold ?img (real_of_int 100));
              v = (if (real (unat (d ! (4 * p))) + real (unat (d ! (4 * p + 1)))
                       + real (unat (d ! (4 * p + 2)))) / 3 > real_of_int 100 then 255 else 0)
          in d' ! (4 * p) = v \<and> d' ! (4 * p + 1) = v \<and> d' ! (4 * p + 2) = v
             \<and> d' ! (4 * p + 3) = d ! (4 * p + 3))"
    by blast+
  from b k p
  have "let d = data ?img; d' = data (applyThreshold ?img (real_of_int 100));
              v = (if (real (unat (d ! (4 * 1))) + real (unat (d ! (4 * 1 + 1)))
                       + real (unat (d ! (4 * 1 + 2)))) / 3 > real_of_int 100 then 255 else 0)
          in d' ! (4 * 1) = v \<and> d' ! (4 * 1 + 1) = v \<and> d' ! (4 * 1 + 2) = v
             \<and> d' ! (4 * 1 + 3) = d ! (4 * 1 + 3)"
    by blast
  then have "data (applyThreshold ?img 100) ! 4 = 255" "data (applyThreshold ?img 100) ! 7 = 7"
    by (simp_all add: Let_def)
  with v i show ?thesis by simp
qed

subsection \<open>Dithering\<close>

lemma length_diffuse [simp]: "length (diffuse e wt k d) = length d"
  by (simp add: diffuse_def)

lemma diffuse_nth_other: "j \<noteq> k \<Longrightarrow> diffuse e wt k d ! j = d ! j"
  by (simp add: diffuse_def)

lemma length_dither_channel [simp]: "length (dither_channel w h y x c d) = length d"
  by (simp add: dither_channel_def Let_def)

lemma dither_channel_other:
  assumes "j \<noteq> (y * w + x) * 4 + c"
    and "j \<noteq> (y * w + (x + 1)) * 4 + c"
    and "j \<noteq> ((y + 1) * w + (x - 1)) * 4 + c"
    and "j \<noteq> ((y + 1) * w + x) * 4 + c"
    and "j \<noteq> ((y + 1) * w + (x + 1)) * 4 + c"
  shows "dither_channel w h y x c d ! j = d ! j"
  using assms by (simp add: dither_channel_def Let_def diffuse_nth_other)

lemma dither_channel_self:
  assumes "x < w" and "(y * w + x) * 4 + c < length d"
  shows "dither_channel w h y x c d ! ((y * w + x) * 4 + c) = 0
       \<or> dither_channel w h y x c d ! ((y * w + x) * 4 + c) = 255"
proof -
  have 1: "(y * w + x) * 4 + c \<noteq> (y * w + (x + 1)) * 4 + c" by simp
  have 2: "(y * w + x) * 4 + c \<noteq> ((y + 1) * w + x) * 4 + c" using assms(1) by simp
  have 3: "(y * w + x) * 4 + c \<noteq> ((y + 1) * w + (x + 1)) * 4 + c" by simp
  have 4: "(y * w + x) * 4 + c \<noteq> ((y + 1) * w + (x - 1)) * 4 + c" if "x > 0"
    using assms(1) that by (simp add: algebra_simps)
  show ?thesis
    using assms 1 2 3 4
    by (auto simp: dither_channel_def Let_def diffuse_nth_other elem_def)
qed

lemma dither_channel_mod:
  assumes "j mod 4 \<noteq> c" "c < 4"
  shows "dither_channel w h y x c d ! j = d ! j"
proof (rule dither_channel_other)
  have "(q * 4 + c) mod 4 = c" for q using assms(2) by simp
  then show "j \<noteq> (y * w + x) * 4 + c" "j \<noteq> (y * w + (x + 1)) * 4 + c"
    "j \<noteq> ((y + 1) * w + (x - 1)) * 4 + c" "j \<noteq> ((y + 1) * w + x) * 4 + c"
    "j \<noteq> ((y + 1) * w + (x + 1)) * 4 + c"
    using assms(1) by blast+
qed

lemma dither_channel_before:
  assumes "j div 4 < y * w + x" "c < 4" "x < w"
  shows "dither_channel w h y x c d ! j = d ! j"
proof (rule dither_channel_other)
  have *: "j \<noteq> q * 4 + c" if "y * w + x \<le> q" for q
  proof
    assume "j = q * 4 + c"
    then have "j div 4 = q" using assms(2) by simp
    with that assms(1) show False by simp
  qed
  show "j \<noteq> (y * w + x) * 4 + c" "j \<noteq> (y * w + (x + 1)) * 4 + c"
    "j \<noteq> ((y + 1) * w + x) * 4 + c" "j \<noteq> ((y + 1) * w + (x + 1)) * 4 + c"
    by (rule *; simp)+
  show "j \<noteq> ((y + 1) * w + (x - 1)) * 4 + c"
    using assms(3) by (intro *) (simp add: algebra_simps)
qed

lemma length_dither_pixel [simp]: "length (dither_pixel w h y x d) = length d"
  by (simp add: dither_pixel_def)

lemma dither_pixel_alpha: "j mod 4 = 3 \<Longrightarrow> dither_pixel w h y x d ! j = d ! j"
  by (simp add: dither_pixel_def dither_channel_mod)

lemma dither_pixel_before:
  "j div 4 < y * w + x \<Longrightarrow> x < w \<Longrightarrow> dither_pixel w h y x d ! j = d ! j"
  by (simp add: dither_pixel_def dither_channel_before)

lemma dither_pixel_self:
  assumes "x < w" and "(y * w + x) * 4 + 3 < length d" and "c < 3"
  shows "dither_pixel w h y x d ! ((y * w + x) * 4 + c) = 0
       \<or> dither_pixel w h y x d ! ((y * w + x) * 4 + c) = 255"
proof -
  let ?i = "(y * w + x) * 4"
  let ?d0 = "dither_channel w h y x 0 d"
  let ?d1 = "dither_channel w h y x 1 ?d0"
  let ?d2 = "dither_channel w h y x 2 ?d1"
  have m: "(?i + c) mod 4 = c" using assms(3) by (intro pixel_mod4) simp
  have r: "dither_pixel w h y x d = ?d2" by (simp add: dither_pixel_def)
  from assms(3) consider "c = 0" | "c = 1" | "c = 2" by linarith
  then show ?thesis
  proof cases
    case 1
    then have "?d2 ! (?i + c) = ?d0 ! (?i + c)"
      using m by (simp add: dither_channel_mod)
    with 1 dither_channel_self [of x w y 0 d h] assms show ?thesis
      unfolding r by simp
  next
    case 2
    then have "?d2 ! (?i + c) = ?d1 ! (?i + c)"
      using m by (simp add: dither_channel_mod)
    with 2 dither_channel_self [of x w y 1 ?d0 h] assms show ?thesis
      unfolding r by simp
  next
    case 3
    with dither_channel_self [of x w y 2 ?d1 h] assms show ?thesis
      unfolding r by simp
  qed
qed

lemma dither_row:
  assumes "n \<le> w" and "(y * w + n) * 4 \<le> length d"
  shows "length (fold (dither_pixel w h y) [0..<n] d) = length d
    \<and> (\<forall>j. j mod 4 = 3 \<longrightarrow> fold (dither_pixel w h y) [0..<n] d ! j = d ! j)
    \<and> (\<forall>j. j div 4 < y * w \<longrightarrow> fold (dither_pixel w h y) [0..<n] d ! j = d ! j)
    \<and> (\<forall>j. y * w \<le> j div 4 \<and> j div 4 < y * w + n \<and> j mod 4 \<noteq> 3 \<longrightarrow>
           fold (dither_pixel w h y) [0..<n] d ! j = 0
         \<or> fold (dither_pixel w h y) [0..<n] d ! j = 255)"
  using assms
proof (induction n)
  case 0
  then show ?case by auto
next
  case (Suc n)
  let ?d' = "fold (dither_pixel w h y) [0..<n] d"
  have IH: "length ?d' = length d"
    "\<And>j. j mod 4 = 3 \<Longrightarrow> ?d' ! j = d ! j"
    "\<And>j. j div 4 < y * w \<Longrightarrow> ?d' ! j = d ! j"
    "\<And>j. y * w \<le> j div 4 \<Longrightarrow> j div 4 < y * w + n \<Longrightarrow> j mod 4 \<noteq> 3 \<Longrightarrow> ?d' ! j = 0 \<or> ?d' ! j = 255"
    using Suc.IH Suc.prems by auto
  have step: "fold (dither_pixel w h y) [0..<Suc n] d = dither_pixel w h y n ?d'"
    by simp
  have n: "n < w" using Suc.prems by simp
  have inr: "(y * w + n) * 4 + 3 < length ?d'"
    using Suc.prems IH(1) by simp
  show ?case
    unfolding step
  proof (intro conjI allI impI)
    show "length (dither_pixel w h y n ?d') = length d" using IH(1) by simp
  next
    fix j :: nat assume "j mod 4 = 3"
    then show "dither_pixel w h y n ?d' ! j = d ! j"
      by (simp add: dither_pixel_alpha IH(2))
  next
    fix j :: nat assume "j div 4 < y * w"
    then show "dither_pixel w h y n ?d' ! j = d ! j"
      using n by (simp add: dither_pixel_before IH(3))
  next
    fix j :: nat assume j: "y * w \<le> j div 4 \<and> j div 4 < y * w + Suc n \<and> j mod 4 \<noteq> 3"
    show "dither_pixel w h y n ?d' ! j = 0 \<or> dither_pixel w h y n ?d' ! j = 255"
    proof (cases "j div 4 < y * w + n")
      case True
      then have "dither_pixel w h y n ?d' ! j = ?d' ! j"
        using n by (simp add: dither_pixel_before)
      with IH(4) [of j] j True show ?thesis by simp
    next
      case False
      with j have "j div 4 = y * w + n" by simp
      then have "j = (y * w + n) * 4 + j mod 4"
        by (metis div_mult_mod_eq)
      moreover have "j mod 4 < 3" using j by presburger
      ultimately show ?thesis
        using dither_pixel_self [OF n inr, of "j mod 4" h] by simp
    qed
  qed
qed

lemma dither_rows:
  assumes "m \<le> h" and "m * w * 4 \<le> length d"
  shows "length (fold (\<lambda>y. fold (dither_pixel w h y) [0..<w]) [0..<m] d) = length d
    \<and> (\<forall>j. j mod 4 = 3 \<longrightarrow> fold (\<lambda>y. fold (dither_pixel w h y) [0..<w]) [0..<m] d ! j = d ! j)
    \<and> (\<forall>j. j div 4 < m * w \<and> j mod 4 \<noteq> 3 \<longrightarrow>
           fold (\<lambda>y. fold (dither_pixel w h y) [0..<w]) [0..<m] d ! j = 0
         \<or> fold (\<lambda>y. fold (dither_pixel w h y) [0..<w]) [0..<m] d ! j = 255)"
  using assms
proof (induction m)
  case 0
  then show ?case by simp
next
  case (Suc m)
  let ?d' = "fold (\<lambda>y. fold (dither_pixel w h y) [0..<w]) [0..<m] d"
  let ?d'' = "fold (dither_pixel w h m) [0..<w] ?d'"
  have IH: "length ?d' = length d"
    "\<And>j. j mod 4 = 3 \<Longrightarrow> ?d' ! j = d ! j"
    "\<And>j. j div 4 < m * w \<Longrightarrow> j mod 4 \<noteq> 3 \<Longrightarrow> ?d' ! j = 0 \<or> ?d' ! j = 255"
    using Suc.IH Suc.prems by (auto simp: algebra_simps)
  have step: "fold (\<lambda>y. fold (dither_pixel w h y) [0..<w]) [0..<Suc m] d = ?d''"
    by simp
  have "(m * w + w) * 4 \<le> length ?d'"
    using Suc.prems IH(1) by (simp add: algebra_simps)
  from dither_row [OF le_refl this, of h]
  have row: "length ?d'' = length ?d'"
    "\<And>j. j mod 4 = 3 \<Longrightarrow> ?d'' ! j = ?d' ! j"
    "\<And>j. j div 4 < m * w \<Longrightarrow> ?d'' ! j = ?d' ! j"
    "\<And>j. m * w \<le> j div 4 \<Longrightarrow> j div 4 < m * w + w \<Longrightarrow> j mod 4 \<noteq> 3 \<Longrightarrow> ?d'' ! j = 0 \<or> ?d'' ! j = 255"
    by auto
  show ?case
    unfolding step
  proof (intro conjI allI impI)
    show "length ?d'' = length d" using row(1) IH(1) by simp
  next
    fix j :: nat assume "j mod 4 = 3"
    then show "?d'' ! j = d ! j" using row(2) IH(2) by simp
  next
    fix j :: nat assume j: "j div 4 < Suc m * w \<and> j mod 4 \<noteq> 3"
    show "?d'' ! j = 0 \<or> ?d'' ! j = 255"
    proof (cases "j div 4 < m * w")
      case True
      with row(3) [of j] IH(3) [of j] j show ?thesis by simp
    next
      case False
      with row(4) [of j] j show ?thesis by simp
    qed
  qed
qed

text \<open>
  C8: after dithering a valid image, each of the three colour channels of every pixel is 0
  or 255 and every alpha value is the one of the input. The reason is in
  \<open>dither_pixel_before\<close>: a pixel's step never writes to a pixel that comes earlier in
  row-major order.
\<close>

theorem applyDithering_binary:
  assumes "valid img"
  shows "width (applyDithering img) = width img \<and> height (applyDithering img) = height img
    \<and> length (data (applyDithering img)) = length (data img)
    \<and> (\<forall>p < width img * height img.
          (\<forall>c < 3. data (applyDithering img) ! (4 * p + c) = 0
                  \<or> data (applyDithering img) ! (4 * p + c) = 255)
          \<and> data (applyDithering img) ! (4 * p + 3) = data img ! (4 * p + 3))"
proof -
  let ?w = "width img" and ?h = "height img"
  let ?d' = "fold (\<lambda>y. fold (dither_pixel ?w ?h y) [0..<?w]) [0..<?h] (data img)"
  have d': "data (applyDithering img) = ?d'"
    by (simp add: applyDithering_def Let_def)
  have "?h * ?w * 4 \<le> length (data img)"
    using assms by (simp add: valid_def mult.commute)
  from dither_rows [OF le_refl this]
  have rows: "length ?d' = length (data img)"
    "\<And>j. j mod 4 = 3 \<Longrightarrow> ?d' ! j = data img ! j"
    "\<And>j. j div 4 < ?h * ?w \<Longrightarrow> j mod 4 \<noteq> 3 \<Longrightarrow> ?d' ! j = 0 \<or> ?d' ! j = 255"
    by auto
  have "(\<forall>c < 3. ?d' ! (4 * p + c) = 0 \<or> ?d' ! (4 * p + c) = 255)
          \<and> ?d' ! (4 * p + 3) = data img ! (4 * p + 3)" if "p < ?w * ?h" for p
  proof (intro conjI allI impI)
    fix c :: nat assume "c < 3"
    then have "(4 * p + c) div 4 = p" "(4 * p + c) mod 4 = c" by simp_all
    with rows(3) [of "4 * p + c"] that \<open>c < 3\<close>
    show "?d' ! (4 * p + c) = 0 \<or> ?d' ! (4 * p + c) = 255"
      by (simp add: mult.commute)
  next
    show "?d' ! (4 * p + 3) = data img ! (4 * p + 3)"
      by (rule rows(2)) simp
  qed
  then show ?thesis
    unfolding d' using rows(1) by (simp add: applyDithering_def Let_def)
qed

theorem applyDithering_binary_witness:
  "valid \<lparr> data = [10, 20, 30, 255, 200, 100, 50, 7], width = 2, height = 1 \<rparr>
   \<and> (1 :: nat) < 2 * 1
   \<and> (data (applyDithering \<lparr> data = [10, 20, 30, 255, 200, 100, 50, 7], width = 2, height = 1 \<rparr>)
         ! 5 = 0
      \<or> data (applyDithering \<lparr> data = [10, 20, 30, 255, 200, 100, 50, 7], width = 2, height = 1 \<rparr>)
         ! 5 = 255)
   \<and> data (applyDithering \<lparr> data = [10, 20, 30, 255, 200, 100, 50, 7], width = 2, height = 1 \<rparr>)
         ! 7 = 7"
proof -
  let ?img = "\<lparr> data = [10, 20, 30, 255, 200, 100, 50, 7], width = 2, height = 1 \<rparr>"
  have v: "valid ?img" by (simp add: valid_def)
  from applyDithering_binary [OF v]
  have a: "\<forall>p < width ?img * height ?img.
          (\<forall>c < 3. data (applyDithering ?img) ! (4 * p + c) = 0
                  \<or> data (applyDithering ?img) ! (4 * p + c) = 255)
          \<and> data (applyDithering ?img) ! (4 * p + 3) = data ?img ! (4 * p + 3)"
    by blast
  have p: "(1 :: nat) < width ?img * height ?img" by simp
  from a p
  have b: "(\<forall>c < 3. data (applyDithering ?img) ! (4 * 1 + c) = 0
                  \<or> data (applyDithering ?img) ! (4 * 1 + c) = 255)
          \<and> data (applyDithering ?img) ! (4 * 1 + 3) = data ?img ! (4 * 1 + 3)"
    by blast
  have c: "(1 :: nat) < 3" by simp
  from b c
  have "data (applyDithering ?img) ! (4 * 1 + 1) = 0 \<or> data (applyDithering ?img) ! (4 * 1 + 1) = 255"
    by blast
  moreover from b have "data (applyDithering ?img) ! (4 * 1 + 3) = data ?img ! (4 * 1 + 3)"
    by blast
  ultimately show ?thesis using v by simp
qed

subsection \<open>RGB shift\<close>

lemma length_shift_pixel [simp]: "length (shift_pixel d w amount y x nd) = length nd"
  by (simp add: shift_pixel_def Let_def)

lemma shift_pixel_frame:
  assumes "j div 4 \<noteq> y * w + x"
  shows "shift_pixel d w amount y x nd ! j = nd ! j"
proof -
  have "j \<noteq> (y * w + x) * 4 + c" if "c < 4" for c
    using assms that by auto
  from this [of 0] this [of 1] this [of 2] this [of 3] show ?thesis
    by (simp add: shift_pixel_def Let_def)
qed

lemma shift_pixel_self:
  assumes "c < 4" and "(y * w + x) * 4 + c < length nd"
  shows "shift_pixel d w amount y x nd ! ((y * w + x) * 4 + c) =
           [read_byte d ((int y * int w + redX w x amount) * 4),
            read_byte d (int ((y * w + x) * 4) + 1),
            read_byte d ((int y * int w + blueX w x amount) * 4 + 2),
            read_byte d (int ((y * w + x) * 4) + 3)] ! c"
proof -
  from assms(1) consider "c = 0" | "c = 1" | "c = 2" | "c = 3" by linarith
  then show ?thesis
    using assms(2) by cases (simp_all add: shift_pixel_def Let_def)
qed

lemma applyRGBShift_nth:
  assumes "j < length (data img)"
  shows "data (applyRGBShift img amount) ! j =
           (if (j div 4) div width img < height img \<and> (j div 4) mod width img < width img
            then [read_byte (data img)
                    ((int ((j div 4) div width img) * int (width img)
                      + redX (width img) ((j div 4) mod width img) amount) * 4),
                  read_byte (data img)
                    (int ((((j div 4) div width img) * width img + (j div 4) mod width img) * 4) + 1),
                  read_byte (data img)
                    ((int ((j div 4) div width img) * int (width img)
                      + blueX (width img) ((j div 4) mod width img) amount) * 4 + 2),
                  read_byte (data img)
                    (int ((((j div 4) div width img) * width img + (j div 4) mod width img) * 4) + 3)]
                 ! (j mod 4)
            else 0)"
proof -
  let ?w = "width img" and ?d = "data img"
  let ?val = "\<lambda>y x c. [read_byte ?d ((int y * int ?w + redX ?w x amount) * 4),
            read_byte ?d (int ((y * ?w + x) * 4) + 1),
            read_byte ?d ((int y * int ?w + blueX ?w x amount) * 4 + 2),
            read_byte ?d (int ((y * ?w + x) * 4) + 3)] ! c"
  have "fold (\<lambda>y. fold (shift_pixel ?d ?w amount y) [0..<?w]) [0..<height img]
          (replicate (length ?d) 0) ! j =
        (if (j div 4) div ?w \<in> set [0..<height img] \<and> (j div 4) mod ?w \<in> set [0..<?w]
         then ?val ((j div 4) div ?w) ((j div 4) mod ?w) (j mod 4)
         else replicate (length ?d) 0 ! j)"
  proof (rule fold_rows_nth [where val = ?val])
    fix y x c :: nat and nd :: "byte list"
    assume "c < 4" "(y * ?w + x) * 4 + c < length nd"
    then show "shift_pixel ?d ?w amount y x nd ! ((y * ?w + x) * 4 + c) = ?val y x c"
      by (rule shift_pixel_self)
  qed (use assms in \<open>simp_all add: shift_pixel_frame\<close>)
  then show ?thesis
    using assms by (simp add: applyRGBShift_def Let_def)
qed

lemma length_applyRGBShift [simp]:
  "length (data (applyRGBShift img amount)) = length (data img)"
  by (simp add: applyRGBShift_def Let_def length_fold_rows)

lemma red_blue_clamped:
  assumes "0 \<le> amount" and "x < w"
  shows "redX w x amount = max 0 (min (int w - 1) (int x + amount))"
    and "blueX w x amount = max 0 (min (int w - 1) (int x - amount))"
    and "0 \<le> redX w x amount" and "redX w x amount \<le> int w - 1"
    and "0 \<le> blueX w x amount" and "blueX w x amount \<le> int w - 1"
  using assms by (auto simp: redX_def blueX_def)

text \<open>
  C5, as it holds: for a shift amount that is not negative (the panel's slider ranges over
  0 to 20), the one-sided bounds of the code are the clamp to \<open>[0, width - 1]\<close>: red comes
  from column \<open>redX\<close>, blue from column \<open>blueX\<close> of the same row, green and alpha from the
  pixel itself, and every index read lies inside the array.
\<close>

theorem applyRGBShift_nonnegative:
  assumes "valid img" and "0 \<le> amount" and "x < width img" and "y < height img"
  shows "let w = width img; d = data img; d' = data (applyRGBShift img amount);
             p = y * w + x; rx = redX w x amount; bx = blueX w x amount
         in rx = max 0 (min (int w - 1) (int x + amount))
          \<and> bx = max 0 (min (int w - 1) (int x - amount))
          \<and> 0 \<le> rx \<and> rx \<le> int w - 1 \<and> 0 \<le> bx \<and> bx \<le> int w - 1
          \<and> 4 * (y * w + nat rx) < length d \<and> 4 * (y * w + nat bx) + 2 < length d
          \<and> d' ! (4 * p) = d ! (4 * (y * w + nat rx))
          \<and> d' ! (4 * p + 1) = d ! (4 * p + 1)
          \<and> d' ! (4 * p + 2) = d ! (4 * (y * w + nat bx) + 2)
          \<and> d' ! (4 * p + 3) = d ! (4 * p + 3)"
proof -
  let ?w = "width img" and ?h = "height img" and ?d = "data img"
  let ?p = "y * ?w + x"
  let ?rx = "redX ?w x amount" and ?bx = "blueX ?w x amount"
  have len: "length ?d = ?w * ?h * 4" using assms(1) by (simp add: valid_def)
  note cl = red_blue_clamped [OF assms(2,3)]
  have row: "y * ?w + k < ?w * ?h" if "k < ?w" for k
  proof -
    have "y * ?w + k < y * ?w + ?w" using that by simp
    also have "\<dots> = (y + 1) * ?w" by simp
    also have "\<dots> \<le> ?h * ?w" using assms(4) by (intro mult_le_mono1) simp
    finally show ?thesis by (simp add: mult.commute)
  qed
  have p: "?p < ?w * ?h" using row [OF assms(3)] .
  have rxn: "nat ?rx < ?w" and bxn: "nat ?bx < ?w"
    using cl(3-6) assms(3) by linarith+
  have rin: "4 * (y * ?w + nat ?rx) < length ?d" "4 * (y * ?w + nat ?bx) + 2 < length ?d"
    using row [OF rxn] row [OF bxn] len by simp_all
  have ri: "(int y * int ?w + ?rx) * 4 = int (4 * (y * ?w + nat ?rx))"
    and bi: "(int y * int ?w + ?bx) * 4 + 2 = int (4 * (y * ?w + nat ?bx) + 2)"
    using cl(3,5) by simp_all
  have rd: "read_byte ?d ((int y * int ?w + ?rx) * 4) = ?d ! (4 * (y * ?w + nat ?rx))"
    using read_byte_nat [OF rin(1)] by (simp only: ri)
  have bd: "read_byte ?d ((int y * int ?w + ?bx) * 4 + 2) = ?d ! (4 * (y * ?w + nat ?bx) + 2)"
    using read_byte_nat [OF rin(2)] by (simp only: bi)
  have own: "read_byte ?d (int (?p * 4) + int c) = ?d ! (4 * ?p + c)" if "c < 4" for c
  proof -
    have "4 * ?p + c < length ?d" using p len that by simp
    moreover have "int (?p * 4) + int c = int (4 * ?p + c)" by simp
    ultimately show ?thesis using read_byte_nat [of "4 * ?p + c" ?d] by (simp only:)
  qed
  have nth: "data (applyRGBShift img amount) ! (4 * ?p + c) =
      [read_byte ?d ((int y * int ?w + ?rx) * 4), read_byte ?d (int (?p * 4) + 1),
       read_byte ?d ((int y * int ?w + ?bx) * 4 + 2), read_byte ?d (int (?p * 4) + 3)] ! c"
    if "c < 4" for c
  proof -
    have j: "4 * ?p + c < length ?d" using p len that by simp
    have dv: "(4 * ?p + c) div 4 = ?p" "(4 * ?p + c) mod 4 = c"
      using that by (rule pixel_index)+
    have co: "?p div ?w = y" "?p mod ?w = x" using assms(3) by simp_all
    show ?thesis
      unfolding applyRGBShift_nth [OF j] dv co using assms(3,4) by simp
  qed
  have "data (applyRGBShift img amount) ! (4 * ?p) = ?d ! (4 * (y * ?w + nat ?rx))"
    using nth [of 0] rd by simp
  moreover have "data (applyRGBShift img amount) ! (4 * ?p + 1) = ?d ! (4 * ?p + 1)"
    using nth [of 1] own [of 1] by simp
  moreover have "data (applyRGBShift img amount) ! (4 * ?p + 2) = ?d ! (4 * (y * ?w + nat ?bx) + 2)"
    using nth [of 2] bd by simp
  moreover have "data (applyRGBShift img amount) ! (4 * ?p + 3) = ?d ! (4 * ?p + 3)"
    using nth [of 3] own [of 3] by simp
  ultimately show ?thesis
    using cl rin by (simp add: Let_def)
qed

theorem applyRGBShift_nonnegative_witness:
  "valid \<lparr> data = [10, 20, 30, 255, 200, 100, 50, 7], width = 2, height = 1 \<rparr>
   \<and> (0::int) \<le> 5 \<and> (0::nat) < 2 \<and> (0::nat) < 1
   \<and> data (applyRGBShift \<lparr> data = [10, 20, 30, 255, 200, 100, 50, 7], width = 2, height = 1 \<rparr> 5) ! 0
       = 200"
  using applyRGBShift_nonnegative
    [of "\<lparr> data = [10, 20, 30, 255, 200, 100, 50, 7], width = 2, height = 1 \<rparr>" 5 0 0]
  by (simp add: valid_def redX_def Let_def)

text \<open>
  C5 as stated fails for a negative amount: on a row of two pixels shifted by \<open>-1\<close>, red of
  column 0 is sought in column \<open>-1\<close> and blue of column 1 in column 2, both outside
  \<open>[0, 1]\<close>; both reads leave the array and 0 is stored.
\<close>

theorem applyRGBShift_negative_counterexample:
  "redX 2 0 (- 1) = - 1 \<and> blueX 2 1 (- 1) = 2
   \<and> data (applyRGBShift \<lparr> data = [10, 20, 30, 255, 200, 100, 50, 7], width = 2, height = 1 \<rparr> (- 1))
       = [0, 20, 50, 255, 10, 100, 0, 7]"
  by code_simp

subsection \<open>Edge detection\<close>

lemma length_edge_pixel [simp]: "length (edge_pixel d w y x nd) = length nd"
  by (simp add: edge_pixel_def Let_def)

lemma edge_pixel_frame:
  assumes "j div 4 \<noteq> y * w + x"
  shows "edge_pixel d w y x nd ! j = nd ! j"
proof -
  have "j \<noteq> (y * w + x) * 4 + c" if "c < 4" for c
    using assms that by auto
  from this [of 0] this [of 1] this [of 2] this [of 3] show ?thesis
    by (simp add: edge_pixel_def Let_def)
qed

lemma edge_pixel_self:
  assumes "c < 4" and "(y * w + x) * 4 + c < length nd"
  shows "edge_pixel d w y x nd ! ((y * w + x) * 4 + c) =
           (if c < 3 then store (magnitude_at d w y x) else 255)"
proof -
  from assms(1) consider "c = 0" | "c = 1" | "c = 2" | "c = 3" by linarith
  then show ?thesis
    using assms(2)
    by cases (simp_all add: edge_pixel_def Let_def)
qed

lemma applyEdgeDetection_nth:
  assumes "j < length (data img)"
  shows "data (applyEdgeDetection img) ! j =
           (if (j div 4) div width img \<in> {1..<height img - 1}
               \<and> (j div 4) mod width img \<in> {1..<width img - 1}
            then (if j mod 4 < 3
                  then store (magnitude_at (data img) (width img)
                                ((j div 4) div width img) ((j div 4) mod width img))
                  else 255)
            else 0)"
proof -
  let ?w = "width img" and ?d = "data img"
  let ?val = "\<lambda>y x c. if c < 3 then store (magnitude_at ?d ?w y x) else (255 :: byte)"
  have "fold (\<lambda>y. fold (edge_pixel ?d ?w y) [1..<?w - 1]) [1..<height img - 1]
          (replicate (length ?d) 0) ! j =
        (if (j div 4) div ?w \<in> set [1..<height img - 1] \<and> (j div 4) mod ?w \<in> set [1..<?w - 1]
         then ?val ((j div 4) div ?w) ((j div 4) mod ?w) (j mod 4)
         else replicate (length ?d) 0 ! j)"
  proof (rule fold_rows_nth [where val = ?val])
    fix y x c :: nat and nd :: "byte list"
    assume "c < 4" "(y * ?w + x) * 4 + c < length nd"
    then show "edge_pixel ?d ?w y x nd ! ((y * ?w + x) * 4 + c) = ?val y x c"
      by (rule edge_pixel_self)
  qed (use assms in \<open>auto simp: edge_pixel_frame\<close>)
  then show ?thesis
    using assms by (simp add: applyEdgeDetection_def Let_def)
qed

lemma gray_at_uniform:
  assumes "length d = n * 4" and "q < n"
    and "d ! (4 * q) = r" and "d ! (4 * q + 1) = g" and "d ! (4 * q + 2) = b"
  shows "gray_at d (q * 4) = Some ((real (unat r) + real (unat g) + real (unat b)) / 3)"
  using assms by (simp add: gray_at_def elem_def mult.commute)

lemma neighbour_index:
  fixes x y w h :: nat
  assumes "1 \<le> y" "y + 1 < h" "1 \<le> x" "x + 1 < w"
    and "i \<in> {- 1, 0, 1}" and "j \<in> {- 1, 0, 1}"
  shows "nat ((int y + i) * int w + (int x + j)) < w * h"
proof -
  have y': "nat (int y + i) < h" and x': "nat (int x + j) < w"
    using assms by auto
  have "(int y + i) * int w + (int x + j) = int (nat (int y + i) * w + nat (int x + j))"
    using assms by auto
  then have "nat ((int y + i) * int w + (int x + j)) = nat (int y + i) * w + nat (int x + j)"
    by (simp only: nat_int)
  with pixel_in_image [OF x' y'] show ?thesis by simp
qed

lemma sobel_add_uniform:
  assumes len: "length d = w * h * 4"
    and uni: "\<forall>p < w * h. d ! (4 * p) = r \<and> d ! (4 * p + 1) = g \<and> d ! (4 * p + 2) = b"
    and int: "1 \<le> y" "y + 1 < h" "1 \<le> x" "x + 1 < w"
    and ij: "i \<in> {- 1, 0, 1}" "j \<in> {- 1, 0, 1}"
  shows "sobel_add d w x y i j (Some a, Some c) =
           (Some (a + (real (unat r) + real (unat g) + real (unat b)) / 3
                        * (sobelX ! nat (i + 1) ! nat (j + 1))),
            Some (c + (real (unat r) + real (unat g) + real (unat b)) / 3
                        * (sobelY ! nat (i + 1) ! nat (j + 1))))"
proof -
  let ?q = "nat ((int y + i) * int w + (int x + j))"
  have q: "?q < w * h" using int ij by (rule neighbour_index)
  have "gray_at d (?q * 4) = Some ((real (unat r) + real (unat g) + real (unat b)) / 3)"
    using len q uni [rule_format, OF q] by (intro gray_at_uniform [where n = "w * h"]) simp_all
  then show ?thesis
    by (simp add: sobel_add_def Let_def num_add_def num_mul_def)
qed

lemma sobel_sums_uniform:
  assumes len: "length d = w * h * 4"
    and uni: "\<forall>p < w * h. d ! (4 * p) = r \<and> d ! (4 * p + 1) = g \<and> d ! (4 * p + 2) = b"
    and int: "1 \<le> y" "y + 1 < h" "1 \<le> x" "x + 1 < w"
  shows "sobel_sums d w x y = (Some 0, Some 0)"
proof -
  note sa = sobel_add_uniform [OF len uni int]
  show ?thesis
    unfolding sobel_sums_def
    by (simp add: sa sobelX_def sobelY_def)
qed

lemma magnitude_at_uniform:
  assumes len: "length d = w * h * 4"
    and uni: "\<forall>p < w * h. d ! (4 * p) = r \<and> d ! (4 * p + 1) = g \<and> d ! (4 * p + 2) = b"
    and int: "1 \<le> y" "y + 1 < h" "1 \<le> x" "x + 1 < w"
  shows "store (magnitude_at d w y x) = 0"
  by (simp add: magnitude_at_def sobel_sums_uniform [OF assms] num_add_def num_mul_def
      Math_sqrt_def store_def ToUint8Clamp_def Let_def)

text \<open>
  C7: on a valid image whose pixels all have the same red, green and blue values, edge
  detection gives every interior pixel the colour channels 0 and alpha 255, and leaves
  every pixel of the one-pixel border at 0 in all four channels.
\<close>

theorem applyEdgeDetection_uniform:
  assumes "valid img"
    and "\<forall>p < width img * height img.
           data img ! (4 * p) = r \<and> data img ! (4 * p + 1) = g \<and> data img ! (4 * p + 2) = b"
    and "x < width img" and "y < height img"
  shows "let w = width img; h = height img; d' = data (applyEdgeDetection img); p = y * w + x
         in if 1 \<le> x \<and> x + 1 < w \<and> 1 \<le> y \<and> y + 1 < h
            then d' ! (4 * p) = 0 \<and> d' ! (4 * p + 1) = 0 \<and> d' ! (4 * p + 2) = 0
                 \<and> d' ! (4 * p + 3) = 255
            else d' ! (4 * p) = 0 \<and> d' ! (4 * p + 1) = 0 \<and> d' ! (4 * p + 2) = 0
                 \<and> d' ! (4 * p + 3) = 0"
proof -
  let ?w = "width img" and ?h = "height img" and ?d = "data img"
  let ?p = "y * ?w + x"
  let ?d' = "data (applyEdgeDetection img)"
  have len: "length ?d = ?w * ?h * 4" using assms(1) by (simp add: valid_def)
  have p: "?p < ?w * ?h" using assms(3,4) by (rule pixel_in_image)
  have co: "?p div ?w = y" "?p mod ?w = x" using assms(3) by simp_all
  have nth: "?d' ! (4 * ?p + c) =
      (if y \<in> {1..<?h - 1} \<and> x \<in> {1..<?w - 1}
       then (if c < 3 then store (magnitude_at ?d ?w y x) else 255) else 0)"
    if "c < 4" for c
  proof -
    have j: "4 * ?p + c < length ?d" using p len that by simp
    have dv: "(4 * ?p + c) div 4 = ?p" "(4 * ?p + c) mod 4 = c"
      using that by (rule pixel_index)+
    show ?thesis
      unfolding applyEdgeDetection_nth [OF j] dv co ..
  qed
  show ?thesis
  proof (cases "1 \<le> x \<and> x + 1 < ?w \<and> 1 \<le> y \<and> y + 1 < ?h")
    case True
    then have m: "store (magnitude_at ?d ?w y x) = 0"
      using magnitude_at_uniform [OF len assms(2)] by simp
    have inside: "y \<in> {1..<?h - 1} \<and> x \<in> {1..<?w - 1}"
      using True by auto
    have e: "?d' ! (4 * ?p + c) = (if c < 3 then 0 else 255)" if "c < 4" for c
      unfolding nth [OF that] by (simp only: inside m simp_thms if_True)
    show ?thesis
      using e [of 0] e [of 1] e [of 2] e [of 3] True
      by (simp add: Let_def)
  next
    case False
    then have outside: "\<not> (y \<in> {1..<?h - 1} \<and> x \<in> {1..<?w - 1})"
      by auto
    have e: "?d' ! (4 * ?p + c) = 0" if "c < 4" for c
      unfolding nth [OF that] by (simp only: outside if_False)
    show ?thesis
      using e [of 0] e [of 1] e [of 2] e [of 3] False
      by (simp add: Let_def)
  qed
qed

theorem applyEdgeDetection_uniform_witness:
  "valid \<lparr> data = [10, 20, 30, 200, 10, 20, 30, 200, 10, 20, 30, 200,
                     10, 20, 30, 200, 10, 20, 30, 200, 10, 20, 30, 200,
                     10, 20, 30, 200, 10, 20, 30, 200, 10, 20, 30, 200],
            width = 3, height = 3 \<rparr>
   \<and> (1 :: nat) < 3
   \<and> data (applyEdgeDetection
        \<lparr> data = [10, 20, 30, 200, 10, 20, 30, 200, 10, 20, 30, 200,
                   10, 20, 30, 200, 10, 20, 30, 200, 10, 20, 30, 200,
                   10, 20, 30, 200, 10, 20, 30, 200, 10, 20, 30, 200],
          width = 3, height = 3 \<rparr>) ! 19 = 255"
proof -
  let ?d = "[10, 20, 30, 200, 10, 20, 30, 200, 10, 20, 30, 200,
             10, 20, 30, 200, 10, 20, 30, 200, 10, 20, 30, 200,
             10, 20, 30, 200, 10, 20, 30, 200, 10, 20, 30, 200] :: byte list"
  let ?img = "\<lparr> data = ?d, width = 3, height = 3 \<rparr>"
  have v: "valid ?img" by (simp add: valid_def)
  have u: "\<forall>p < width ?img * height ?img.
             data ?img ! (4 * p) = 10 \<and> data ?img ! (4 * p + 1) = 20 \<and> data ?img ! (4 * p + 2) = 30"
    by (simp add: less_Suc_eq numeral_eq_Suc)
  have x: "1 < width ?img" and y: "1 < height ?img" by simp_all
  from applyEdgeDetection_uniform [OF v u x y] u v show ?thesis
    by (simp add: Let_def)
qed

subsection \<open>Gamma\<close>

lemma length_gamma_step [simp]: "length (gamma_step g i d) = length d"
  by (simp add: gamma_step_def Let_def)

lemma gamma_step_nth:
  assumes "4 * p + 3 < length d"
  shows "gamma_step g (4 * p) d ! k =
           (if k div 4 = p \<and> k mod 4 < 3 then gamma_channel g (d ! k) else d ! k)"
proof -
  have "k = 4 * p \<or> k = 4 * p + 1 \<or> k = 4 * p + 2" if "k div 4 = p" "k mod 4 < 3"
    using that by presburger
  moreover have "k \<noteq> 4 * p \<and> k \<noteq> 4 * p + 1 \<and> k \<noteq> 4 * p + 2" if "\<not> (k div 4 = p \<and> k mod 4 < 3)"
    using that by presburger
  ultimately show ?thesis
    using assms
    by (auto simp: gamma_step_def Let_def)
qed

lemma applyGamma_pixel:
  assumes "length (data img) = n * 4" and "p < n" and "c < 4"
  shows "data (applyGamma img g) ! (4 * p + c) =
           (if c < 3 then gamma_channel g (data img ! (4 * p + c)) else data img ! (4 * p + c))"
proof -
  have "fold (gamma_step g) (map (\<lambda>p. 4 * p) [0..<n]) (data img) ! (4 * p + c) =
          (if (4 * p + c) div 4 \<in> set [0..<n]
           then gamma_step g (4 * ((4 * p + c) div 4)) (data img) ! (4 * p + c)
           else data img ! (4 * p + c))"
  proof (rule fold_pixels_nth)
    fix p d k show "k div 4 \<noteq> p \<Longrightarrow> gamma_step g (4 * p) d ! k = d ! k"
      by (simp add: gamma_step_def Let_def) 
  next
    fix p c :: nat and d d' :: "byte list"
    assume a: "length d = length d'" "4 * p + 3 < length d" "c < 4"
      and e: "\<forall>j<4. d ! (4 * p + j) = d' ! (4 * p + j)"
    have "d ! (4 * p + c) = d' ! (4 * p + c)"
      using e \<open>c < 4\<close> by simp
    then show "gamma_step g (4 * p) d ! (4 * p + c) = gamma_step g (4 * p) d' ! (4 * p + c)"
      using a by (simp add: gamma_step_nth)
  next
    show "\<forall>p\<in>set [0..<n]. 4 * p + 3 < length (data img)"
      using assms by auto
  qed simp_all
  moreover have "4 * p + 3 < length (data img)"
    using assms by auto
  ultimately show ?thesis
    using assms by (simp add: applyGamma_def by4_mult4 gamma_step_nth pixel_index)
qed

lemma length_applyGamma [simp]: "length (data (applyGamma img g)) = length (data img)"
  by (simp add: applyGamma_def length_fold_step)

lemma gamma_channel_one: "gamma_channel 1 v = v"
proof -
  have "(real (unat v) / 255) powr 1 * 255 = real (unat v)"
    using byte_real_bounds [of v] by (simp del: of_nat_unat)
  then show ?thesis
    unfolding gamma_channel_def Let_def using ToUint8Clamp_byte [of v]
    by (simp del: of_nat_unat)
qed


lemma applyGamma_one:
  assumes "valid img"
  shows "applyGamma img 1 = img"
proof -
  let ?n = "width img * height img"
  have len: "length (data img) = ?n * 4" using assms by (simp add: valid_def)
  have "data (applyGamma img 1) = data img"
  proof (rule nth_equalityI)
    fix k assume "k < length (data (applyGamma img 1))"
    then have k: "k < ?n * 4" using len by simp
    define p c where "p = k div 4" and "c = k mod 4"
    then have pc: "k = 4 * p + c" "c < 4" "p < ?n"
      using k by auto
    show "data (applyGamma img 1) ! k = data img ! k"
      unfolding pc(1) applyGamma_pixel [OF len pc(3) pc(2)] by (simp add: gamma_channel_one)
  qed simp
  then show ?thesis
    by (cases img) (simp add: applyGamma_def)
qed




subsection \<open>Grain\<close>

lemma grain_step_snd [simp]: "snd (grain_step random opacity i s) = snd s + 1"
  by (simp add: grain_step_def Let_def)

lemma grain_step_length [simp]: "length (fst (grain_step random opacity i s)) = length (fst s)"
  by (simp add: grain_step_def Let_def)

lemma grain_step_nth:
  assumes "4 * p + 3 < length d"
  shows "fst (grain_step random opacity (4 * p) (d, k)) ! j =
           (if j div 4 = p \<and> j mod 4 < 3
            then ToUint8Clamp (max 0 (min 255 (real (unat (d ! j))
                                + (random k - 1 / 2) * (opacity / 100) * 255)))
            else d ! j)"
proof -
  have "j = 4 * p \<or> j = 4 * p + 1 \<or> j = 4 * p + 2" if "j div 4 = p" "j mod 4 < 3"
    using that by presburger
  moreover have "j \<noteq> 4 * p \<and> j \<noteq> 4 * p + 1 \<and> j \<noteq> 4 * p + 2" if "\<not> (j div 4 = p \<and> j mod 4 < 3)"
    using that by presburger
  ultimately show ?thesis
    using assms
    by (auto simp: grain_step_def Let_def elem_def num_add_def max0_min255_def store_def
        simp del: of_nat_unat)
qed

lemma grain_prefix:
  assumes "length d = n * 4" and "m \<le> n"
  shows "snd (fold (grain_step random opacity) (map (\<lambda>p. 4 * p) [0..<m]) (d, drawn)) = drawn + m
    \<and> length (fst (fold (grain_step random opacity) (map (\<lambda>p. 4 * p) [0..<m]) (d, drawn))) = length d
    \<and> (\<forall>j. fst (fold (grain_step random opacity) (map (\<lambda>p. 4 * p) [0..<m]) (d, drawn)) ! j =
           (if j div 4 < m \<and> j mod 4 < 3
            then ToUint8Clamp (max 0 (min 255 (real (unat (d ! j))
                                + (random (drawn + j div 4) - 1 / 2) * (opacity / 100) * 255)))
            else d ! j))"
  using assms(2)
proof (induction m)
  case 0
  then show ?case by simp
next
  case (Suc m)
  let ?s = "fold (grain_step random opacity) (map (\<lambda>p. 4 * p) [0..<m]) (d, drawn)"
  have IH: "snd ?s = drawn + m" "length (fst ?s) = length d"
    "\<And>j. fst ?s ! j =
           (if j div 4 < m \<and> j mod 4 < 3
            then ToUint8Clamp (max 0 (min 255 (real (unat (d ! j))
                                + (random (drawn + j div 4) - 1 / 2) * (opacity / 100) * 255)))
            else d ! j)"
    using Suc by simp_all
  have s: "?s = (fst ?s, drawn + m)" using IH(1) by (metis prod.collapse)
  have step: "fold (grain_step random opacity) (map (\<lambda>p. 4 * p) [0..<Suc m]) (d, drawn)
                = grain_step random opacity (4 * m) (fst ?s, drawn + m)"
    using s by simp
  have inr: "4 * m + 3 < length (fst ?s)"
    using Suc.prems assms(1) IH(2) by simp
  show ?case
    unfolding step
  proof (intro conjI allI)
    show "snd (grain_step random opacity (4 * m) (fst ?s, drawn + m)) = drawn + Suc m"
      by simp
    show "length (fst (grain_step random opacity (4 * m) (fst ?s, drawn + m))) = length d"
      using IH(2) by simp
    fix j
    show "fst (grain_step random opacity (4 * m) (fst ?s, drawn + m)) ! j =
           (if j div 4 < Suc m \<and> j mod 4 < 3
            then ToUint8Clamp (max 0 (min 255 (real (unat (d ! j))
                                + (random (drawn + j div 4) - 1 / 2) * (opacity / 100) * 255)))
            else d ! j)"
      unfolding grain_step_nth [OF inr] IH(3)
      by (auto simp: less_Suc_eq)
  qed
qed

text \<open>
  C4 as stated fails: the code makes one draw per pixel and adds the same noise to red,
  green and blue. With the draws 0.9, 0.1, 0.5 and opacity 100 the pixel \<open>(10, 20, 30)\<close>
  becomes \<open>(112, 122, 132)\<close> after one draw, where a draw per channel gives
  \<open>(112, 0, 30)\<close> after three.
\<close>

theorem applyGrainEffect_counterexample:
  "applyGrainEffect (\<lambda>n. if n = 0 then 9 / 10 else if n = 1 then 1 / 10 else 1 / 2) 0
     \<lparr> data = [10, 20, 30, 255], width = 1, height = 1 \<rparr> 100
     = (\<lparr> data = [112, 122, 132, 255], width = 1, height = 1 \<rparr>, 1)
   \<and> spec_grain (\<lambda>n. if n = 0 then 9 / 10 else if n = 1 then 1 / 10 else 1 / 2) 0
       \<lparr> data = [10, 20, 30, 255], width = 1, height = 1 \<rparr> 100
     = (\<lparr> data = [112, 0, 30, 255], width = 1, height = 1 \<rparr>, 3)"
  by code_simp

lemma ToUint8Clamp_floor_ceiling:
  "ToUint8Clamp x = word_of_int \<lfloor>min 255 (max 0 x)\<rfloor>
   \<or> ToUint8Clamp x = word_of_int \<lceil>min 255 (max 0 x)\<rceil>"
proof -
  define c where "c = min 255 (max 0 x)"
  have t: "ToUint8Clamp x =
      word_of_int (if real_of_int \<lfloor>c\<rfloor> + 1 / 2 < c then \<lfloor>c\<rfloor> + 1
                   else if c < real_of_int \<lfloor>c\<rfloor> + 1 / 2 then \<lfloor>c\<rfloor>
                   else if even \<lfloor>c\<rfloor> then \<lfloor>c\<rfloor> else \<lfloor>c\<rfloor> + 1)"
    by (simp only: ToUint8Clamp_def Let_def c_def)
  show ?thesis
  proof (cases "c = real_of_int \<lfloor>c\<rfloor>")
    case True
    then have "\<not> real_of_int \<lfloor>c\<rfloor> + 1 / 2 < c" "c < real_of_int \<lfloor>c\<rfloor> + 1 / 2"
      by linarith+
    then have "ToUint8Clamp x = word_of_int \<lfloor>c\<rfloor>"
      unfolding t by (simp only: if_False if_True)
    then show ?thesis by (simp only: c_def) simp
  next
    case False
    then have "\<lceil>c\<rceil> = \<lfloor>c\<rfloor> + 1"
      by (simp add: ceiling_altdef)
    then have "ToUint8Clamp x = word_of_int \<lfloor>c\<rfloor> \<or> ToUint8Clamp x = word_of_int \<lceil>c\<rceil>"
      unfolding t by (simp only: split: if_splits) auto
    then show ?thesis by (simp only: c_def)
  qed
qed

lemma clamped_again: "min 255 (max 0 (max 0 (min 255 y))) = max 0 (min 255 y)" for y :: real
  by simp

text \<open>
  C4, as it holds: the grain effect makes one draw per pixel, in array order; the noise
  \<open>(random() - 0.5) * (opacity / 100) * 255\<close> of that draw is added to each of the red,
  green and blue channels of the pixel, each sum clamped to \<open>[0, 255]\<close>, and alpha is
  untouched. The byte stored is the integer just below or just above the exact clamped
  sum: which of the two is decided by the rounding to the nearest, which the code
  applies to the sum it has computed in doubles.
\<close>

theorem applyGrainEffect_shared_noise:
  assumes "valid img" and "p < width img * height img"
  shows "let d = data img; r = applyGrainEffect random drawn img opacity; d' = data (fst r);
             noise = (random (drawn + p) - 1 / 2) * (opacity / 100) * 255
         in snd r = drawn + width img * height img
          \<and> (\<forall>c < 3.
                d' ! (4 * p + c)
                  = word_of_int \<lfloor>max 0 (min 255 (real (unat (d ! (4 * p + c))) + noise))\<rfloor>
              \<or> d' ! (4 * p + c)
                  = word_of_int \<lceil>max 0 (min 255 (real (unat (d ! (4 * p + c))) + noise))\<rceil>)
          \<and> d' ! (4 * p + 3) = d ! (4 * p + 3)"
proof -
  let ?n = "width img * height img"
  let ?noise = "(random (drawn + p) - 1 / 2) * (opacity / 100) * 255"
  have len: "length (data img) = ?n * 4" using assms(1) by (simp add: valid_def)
  note pre = grain_prefix [OF len le_refl, of random opacity drawn]
  let ?s = "fold (grain_step random opacity) (map (\<lambda>p. 4 * p) [0..<?n]) (data img, drawn)"
  have r: "applyGrainEffect random drawn img opacity =
             (\<lparr> data = fst ?s, width = width img, height = height img \<rparr>, snd ?s)"
    by (simp add: applyGrainEffect_def Let_def len by4_mult4)
  have nth: "fst ?s ! (4 * p + c) =
           (if c < 3
            then ToUint8Clamp (max 0 (min 255 (real (unat (data img ! (4 * p + c))) + ?noise)))
            else data img ! (4 * p + c))" if "c < 4" for c
  proof -
    have dv: "(4 * p + c) div 4 = p" "(4 * p + c) mod 4 = c"
      using that by (rule pixel_index)+
    show ?thesis
      using pre [THEN conjunct2, THEN conjunct2, rule_format, of "4 * p + c"] assms(2)
      unfolding dv by simp
  qed
  have col: "fst ?s ! (4 * p + c)
          = word_of_int \<lfloor>max 0 (min 255 (real (unat (data img ! (4 * p + c))) + ?noise))\<rfloor>
      \<or> fst ?s ! (4 * p + c)
          = word_of_int \<lceil>max 0 (min 255 (real (unat (data img ! (4 * p + c))) + ?noise))\<rceil>"
    if "c < 3" for c
  proof -
    have "fst ?s ! (4 * p + c)
            = ToUint8Clamp (max 0 (min 255 (real (unat (data img ! (4 * p + c))) + ?noise)))"
      using nth [of c] that by simp
    with ToUint8Clamp_floor_ceiling
           [of "max 0 (min 255 (real (unat (data img ! (4 * p + c))) + ?noise))"]
    show ?thesis
      by (simp only: clamped_again)
  qed
  have alpha: "fst ?s ! (4 * p + 3) = data img ! (4 * p + 3)"
    using nth [of 3] by simp
  have cnt: "snd ?s = drawn + ?n"
    using pre by simp
  have "data (fst (applyGrainEffect random drawn img opacity)) = fst ?s"
    "snd (applyGrainEffect random drawn img opacity) = snd ?s"
    unfolding r by simp_all
  with col alpha cnt show ?thesis
    by (simp only: Let_def) blast
qed

theorem applyGrainEffect_shared_noise_witness:
  "valid \<lparr> data = [10, 20, 30, 255], width = 1, height = 1 \<rparr> \<and> (0 :: nat) < 1
   \<and> snd (applyGrainEffect (\<lambda>n. 9 / 10) 0 \<lparr> data = [10, 20, 30, 255], width = 1, height = 1 \<rparr> 100)
       = 1
   \<and> data (fst (applyGrainEffect (\<lambda>n. 9 / 10) 0
        \<lparr> data = [10, 20, 30, 255], width = 1, height = 1 \<rparr> 100)) ! 3 = 255"
  using applyGrainEffect_shared_noise
    [of "\<lparr> data = [10, 20, 30, 255], width = 1, height = 1 \<rparr>" 0 "\<lambda>n. 9 / 10" 0 100]
  by (simp add: valid_def Let_def)

subsection \<open>The pipeline\<close>

lemma apply_effect_disabled: "\<not> enabled effect \<Longrightarrow> apply_effect effect img = img"
  by (simp add: apply_effect_def)

lemma fold_apply_effect_disabled:
  "\<forall>effect \<in> set effects. \<not> enabled effect \<Longrightarrow> fold apply_effect effects img = img"
  by (induction effects arbitrary: img) (simp_all add: apply_effect_disabled)

lemma blur_filters_disabled:
  "\<forall>effect \<in> set effects. \<not> enabled effect \<Longrightarrow> blur_filters effects = []"
  by (induction effects) (simp_all add: blur_filters_def)

lemma putImageData_same_size:
  assumes "length (data img) = w * h * 4" and "width img = w" and "height img = h"
    and "canvas_width cv = w" and "canvas_height cv = h" and "length (bitmap cv) = w * h * 4"
  shows "putImageData img cv = cv \<lparr> bitmap := data img \<rparr>"
proof -
  have "map (\<lambda>k. let x = (k div 4) mod w; y = (k div 4) div w
                 in if x < w \<and> y < h
                    then read_byte (data img) (int ((y * w + x) * 4 + k mod 4))
                    else bitmap cv ! k) [0..<w * h * 4] = data img"
  proof (rule nth_equalityI)
    show "length (map (\<lambda>k. let x = (k div 4) mod w; y = (k div 4) div w
                 in if x < w \<and> y < h
                    then read_byte (data img) (int ((y * w + x) * 4 + k mod 4))
                    else bitmap cv ! k) [0..<w * h * 4]) = length (data img)"
      using assms(1) by simp
  next
    fix k assume "k < length (map (\<lambda>k. let x = (k div 4) mod w; y = (k div 4) div w
                 in if x < w \<and> y < h
                    then read_byte (data img) (int ((y * w + x) * 4 + k mod 4))
                    else bitmap cv ! k) [0..<w * h * 4])"
    then have k: "k < w * h * 4" by simp
    then have q: "k div 4 < w * h" by simp
    then have w: "0 < w" by (cases w) simp_all
    have x: "(k div 4) mod w < w" using w by simp
    have y: "(k div 4) div w < h" using q by (simp add: less_mult_imp_div_less mult.commute)
    have e: "((k div 4) div w * w + (k div 4) mod w) * 4 + k mod 4 = k"
      by simp
    show "map (\<lambda>k. let x = (k div 4) mod w; y = (k div 4) div w
                 in if x < w \<and> y < h
                    then read_byte (data img) (int ((y * w + x) * 4 + k mod 4))
                    else bitmap cv ! k) [0..<w * h * 4] ! k = data img ! k"
      using k x y assms(1) by (simp add: Let_def e read_byte_nat del: of_nat_add of_nat_mult)
  qed
  then show ?thesis
    unfolding putImageData_def assms(2-6) by (simp only:)
qed

lemma update_canvas_other [simp]:
  "r \<noteq> c \<Longrightarrow> canvases (update_canvas r f doc) c = canvases doc c"
  by (simp add: update_canvas_def)

lemma update_canvas_same [simp]:
  "canvases (update_canvas r f doc) r = map_option f (canvases doc r)"
  by (simp add: update_canvas_def)

lemma update_canvas_fields [simp]:
  "fresh (update_canvas r f doc) = fresh doc" "provides2d (update_canvas r f doc) = provides2d doc"
  by (simp_all add: update_canvas_def)

text \<open>The canvas that the pipeline creates, before the image is put into it.\<close>

lemma applyEffectsToCanvas_result:
  assumes "canvases doc canvas = Some cv" and "context2d cv"
    and "0 < canvas_width cv" and "0 < canvas_height cv"
  shows "\<exists>doc'. applyEffectsToCanvas doc canvas effects = Inr (fresh doc, doc')
    \<and> fresh doc' = Suc (fresh doc)
    \<and> (\<forall>r. r \<noteq> fresh doc \<longrightarrow> canvases doc' r = canvases doc r)
    \<and> canvases doc' (fresh doc) =
        Some (let blank = \<lparr> canvas_width = canvas_width cv, canvas_height = canvas_height cv,
                             bitmap = replicate (canvas_width cv * canvas_height cv * 4) 0,
                             style_filter = [], context2d = provides2d doc \<rparr>
              in if provides2d doc
                 then applyCanvasEffects effects
                        (putImageData
                           (fold apply_effect effects
                              \<lparr> data = bitmap cv, width = canvas_width cv, height = canvas_height cv \<rparr>)
                           blank)
                 else blank)"
  using assms
  by (auto simp: applyEffectsToCanvas_def getImageData_def createElement_canvas_def Let_def
      set_width_def set_height_def update_canvas_def)

text \<open>
  C1 as stated fails: for the empty chain the pipeline returns a canvas that it has just
  created, not the canvas it was given. Here the input is canvas 0 and the result is
  canvas 1, which holds a copy of the input's four bytes.
\<close>

theorem applyEffectsToCanvas_empty_counterexample:
  "map_sum id fst (applyEffectsToCanvas
      \<lparr> canvases = (\<lambda>r. None)(0 \<mapsto> \<lparr> canvas_width = 1, canvas_height = 1, bitmap = [1, 2, 3, 4],
                                         style_filter = [], context2d = True \<rparr>),
        fresh = 1, provides2d = True \<rparr> 0 []) = Inr 1
   \<and> (1 :: nat) \<noteq> 0"
  by (simp add: applyEffectsToCanvas_def getImageData_def createElement_canvas_def Let_def)

text \<open>
  C1, as it holds: on a canvas of positive size with a 2D context, in a document that
  provides 2D contexts, the pipeline applied to an empty chain, or to a chain whose
  descriptors are all disabled, returns a newly created canvas, different from the input,
  with the input's width, height and bitmap and no filter; the input canvas is unchanged.
\<close>

theorem applyEffectsToCanvas_disabled_chain:
  assumes "canvases doc canvas = Some cv" and "context2d cv" and "provides2d doc"
    and "canvas < fresh doc"
    and "0 < canvas_width cv" and "0 < canvas_height cv"
    and "length (bitmap cv) = canvas_width cv * canvas_height cv * 4"
    and "\<forall>effect \<in> set effects. \<not> enabled effect"
  shows "\<exists>doc'. applyEffectsToCanvas doc canvas effects = Inr (fresh doc, doc')
    \<and> fresh doc \<noteq> canvas
    \<and> canvases doc' (fresh doc) =
        Some \<lparr> canvas_width = canvas_width cv, canvas_height = canvas_height cv,
               bitmap = bitmap cv, style_filter = [], context2d = True \<rparr>
    \<and> canvases doc' canvas = Some cv"
proof -
  let ?w = "canvas_width cv" and ?h = "canvas_height cv"
  let ?blank = "\<lparr> canvas_width = ?w, canvas_height = ?h, bitmap = replicate (?w * ?h * 4) 0,
                   style_filter = [], context2d = provides2d doc \<rparr>"
  let ?img = "\<lparr> data = bitmap cv, width = ?w, height = ?h \<rparr>"
  from applyEffectsToCanvas_result [OF assms(1,2,5,6), of effects]
  obtain doc' where r: "applyEffectsToCanvas doc canvas effects = Inr (fresh doc, doc')"
    and other: "\<forall>r. r \<noteq> fresh doc \<longrightarrow> canvases doc' r = canvases doc r"
    and new: "canvases doc' (fresh doc) =
        Some (let blank = ?blank
              in if provides2d doc
                 then applyCanvasEffects effects (putImageData (fold apply_effect effects ?img) blank)
                 else blank)"
    by blast
  have ne: "fresh doc \<noteq> canvas" using assms(4) by simp
  have "putImageData ?img ?blank = ?blank \<lparr> bitmap := data ?img \<rparr>"
    by (rule putImageData_same_size [where w = ?w and h = ?h]) (simp_all add: assms(7))
  then have "applyCanvasEffects effects (putImageData (fold apply_effect effects ?img) ?blank)
      = \<lparr> canvas_width = ?w, canvas_height = ?h, bitmap = bitmap cv,
          style_filter = [], context2d = True \<rparr>"
    using assms(3,8)
    by (simp add: fold_apply_effect_disabled blur_filters_disabled applyCanvasEffects_def)
  with new assms(3) have "canvases doc' (fresh doc) =
        Some \<lparr> canvas_width = ?w, canvas_height = ?h, bitmap = bitmap cv,
               style_filter = [], context2d = True \<rparr>"
    by (simp add: Let_def)
  moreover have "canvases doc' canvas = Some cv"
    using other ne assms(1) by simp
  ultimately show ?thesis
    using r ne by blast
qed

theorem applyEffectsToCanvas_disabled_chain_witness:
  "canvases \<lparr> canvases = (\<lambda>r. None)(0 \<mapsto> \<lparr> canvas_width = 1, canvas_height = 1,
                 bitmap = [1, 2, 3, 4], style_filter = [], context2d = True \<rparr>),
              fresh = 1, provides2d = True \<rparr> 0
     = Some \<lparr> canvas_width = 1, canvas_height = 1, bitmap = [1, 2, 3, 4],
              style_filter = [], context2d = True \<rparr>
   \<and> (\<exists>doc'. applyEffectsToCanvas
          \<lparr> canvases = (\<lambda>r. None)(0 \<mapsto> \<lparr> canvas_width = 1, canvas_height = 1,
               bitmap = [1, 2, 3, 4], style_filter = [], context2d = True \<rparr>),
            fresh = 1, provides2d = True \<rparr> 0
          [\<lparr> id' = ''blur-1'', type = Blur, enabled = False, config = emptyConfig \<rparr>]
        = Inr (1, doc')
      \<and> canvases doc' 1 = Some \<lparr> canvas_width = 1, canvas_height = 1, bitmap = [1, 2, 3, 4],
                                  style_filter = [], context2d = True \<rparr>)"
  using applyEffectsToCanvas_disabled_chain
    [of "\<lparr> canvases = (\<lambda>r. None)(0 \<mapsto> \<lparr> canvas_width = 1, canvas_height = 1,
             bitmap = [1, 2, 3, 4], style_filter = [], context2d = True \<rparr>),
           fresh = 1, provides2d = True \<rparr>" 0
        "\<lparr> canvas_width = 1, canvas_height = 1, bitmap = [1, 2, 3, 4],
           style_filter = [], context2d = True \<rparr>"
        "[\<lparr> id' = ''blur-1'', type = Blur, enabled = False, config = emptyConfig \<rparr>]"]
  by simp blast

text \<open>
  C9: the pipeline leaves the canvas it is given as it was, bitmap included. When it
  returns another canvas, that canvas is the one it has just created, and no other canvas
  of the document has changed. (The hypothesis says that the input canvas exists already:
  references are handed out in increasing order.)
\<close>

theorem applyEffectsToCanvas_input_unchanged:
  assumes "canvas < fresh doc"
    and "applyEffectsToCanvas doc canvas effects = Inr (processedCanvas, doc')"
  shows "canvases doc' canvas = canvases doc canvas
    \<and> (processedCanvas = canvas \<and> doc' = doc
       \<or> processedCanvas = fresh doc \<and> (\<forall>r. r \<noteq> fresh doc \<longrightarrow> canvases doc' r = canvases doc r))"
proof (cases "canvases doc canvas")
  case None
  with assms(2) show ?thesis by (simp add: applyEffectsToCanvas_def)
next
  case (Some cv)
  show ?thesis
  proof (cases "context2d cv")
    case False
    with Some assms(2) show ?thesis by (simp add: applyEffectsToCanvas_def)
  next
    case True
    show ?thesis
    proof (cases "canvas_width cv = 0 \<or> canvas_height cv = 0")
      case zero: True
      with Some True assms(2) show ?thesis
        by (simp add: applyEffectsToCanvas_def getImageData_def)
    next
      case False
      then have "0 < canvas_width cv" "0 < canvas_height cv" by simp_all
      from applyEffectsToCanvas_result [OF Some True this, of effects] assms
      show ?thesis by auto
    qed
  qed
qed

theorem applyEffectsToCanvas_input_unchanged_witness:
  "(0 :: nat) < 1
   \<and> (\<exists>processedCanvas doc'.
        applyEffectsToCanvas
          \<lparr> canvases = (\<lambda>r. None)(0 \<mapsto> \<lparr> canvas_width = 1, canvas_height = 1,
               bitmap = [1, 2, 3, 4], style_filter = [], context2d = True \<rparr>),
            fresh = 1, provides2d = True \<rparr> 0
          [\<lparr> id' = ''threshold-1'', type = Threshold, enabled = True, config = emptyConfig \<rparr>]
        = Inr (processedCanvas, doc')
      \<and> canvases doc' 0 = Some \<lparr> canvas_width = 1, canvas_height = 1, bitmap = [1, 2, 3, 4],
                                  style_filter = [], context2d = True \<rparr>)"
proof -
  let ?cv = "\<lparr> canvas_width = 1, canvas_height = 1, bitmap = [1, 2, 3, 4],
               style_filter = [], context2d = True \<rparr>"
  let ?doc = "\<lparr> canvases = (\<lambda>r. None)(0 \<mapsto> ?cv), fresh = 1, provides2d = True \<rparr>"
  let ?effects = "[\<lparr> id' = ''threshold-1'', type = Threshold, enabled = True, config = emptyConfig \<rparr>]"
  have "canvases ?doc 0 = Some ?cv" "context2d ?cv" "0 < canvas_width ?cv" "0 < canvas_height ?cv"
    by simp_all
  from applyEffectsToCanvas_result [OF this, of ?effects]
  obtain doc' where r: "applyEffectsToCanvas ?doc 0 ?effects = Inr (fresh ?doc, doc')"
    by blast
  have "0 < fresh ?doc" by simp
  from applyEffectsToCanvas_input_unchanged [OF this r]
  have "canvases doc' 0 = Some ?cv" by simp
  with r show ?thesis by blast
qed

text \<open>
  C6 as stated fails: the pipeline has no check of its own. A canvas of width and height 0
  without a 2D context is returned as it is; with a 2D context, the call fails in
  \<^verbatim>\<open>getImageData\<close> with the platform's \<^verbatim>\<open>IndexSizeError\<close>.
\<close>

theorem applyEffectsToCanvas_malformed_counterexample:
  "applyEffectsToCanvas
     \<lparr> canvases = (\<lambda>r. None)(0 \<mapsto> \<lparr> canvas_width = 0, canvas_height = 0, bitmap = [],
                                        style_filter = [], context2d = False \<rparr>),
       fresh = 1, provides2d = True \<rparr> 0 []
     = Inr (0, \<lparr> canvases = (\<lambda>r. None)(0 \<mapsto> \<lparr> canvas_width = 0, canvas_height = 0,
                                     bitmap = [], style_filter = [], context2d = False \<rparr>),
                 fresh = 1, provides2d = True \<rparr>)
   \<and> applyEffectsToCanvas
       \<lparr> canvases = (\<lambda>r. None)(0 \<mapsto> \<lparr> canvas_width = 0, canvas_height = 0, bitmap = [],
                                          style_filter = [], context2d = True \<rparr>),
         fresh = 1, provides2d = True \<rparr> 0 []
     = Inl IndexSizeError"
  by (simp add: applyEffectsToCanvas_def getImageData_def)

text \<open>
  C6, as it holds: the only failures of the pipeline are those of the platform. On a
  canvas with a 2D context and width or height 0 the call fails with \<^verbatim>\<open>IndexSizeError\<close>
  before any effect runs; on a canvas without a 2D context it returns the canvas and
  changes nothing; on every other canvas it returns a new canvas. A data array of the
  wrong length cannot be passed: the argument is a canvas.
\<close>

theorem applyEffectsToCanvas_failures:
  assumes "canvases doc canvas = Some cv"
  shows "(context2d cv \<and> (canvas_width cv = 0 \<or> canvas_height cv = 0) \<longrightarrow>
            applyEffectsToCanvas doc canvas effects = Inl IndexSizeError)
    \<and> (\<not> context2d cv \<longrightarrow> applyEffectsToCanvas doc canvas effects = Inr (canvas, doc))
    \<and> (context2d cv \<and> 0 < canvas_width cv \<and> 0 < canvas_height cv \<longrightarrow>
          (\<exists>doc'. applyEffectsToCanvas doc canvas effects = Inr (fresh doc, doc')))"
proof (intro conjI impI)
  assume "context2d cv \<and> (canvas_width cv = 0 \<or> canvas_height cv = 0)"
  with assms show "applyEffectsToCanvas doc canvas effects = Inl IndexSizeError"
    by (simp add: applyEffectsToCanvas_def getImageData_def)
next
  assume "\<not> context2d cv"
  with assms show "applyEffectsToCanvas doc canvas effects = Inr (canvas, doc)"
    by (simp add: applyEffectsToCanvas_def)
next
  assume "context2d cv \<and> 0 < canvas_width cv \<and> 0 < canvas_height cv"
  then have "context2d cv" "0 < canvas_width cv" "0 < canvas_height cv" by simp_all
  from applyEffectsToCanvas_result [OF assms this, of effects]
  show "\<exists>doc'. applyEffectsToCanvas doc canvas effects = Inr (fresh doc, doc')"
    by blast
qed

theorem applyEffectsToCanvas_failures_witness:
  "canvases \<lparr> canvases = (\<lambda>r. None)(0 \<mapsto> \<lparr> canvas_width = 0, canvas_height = 3,
                 bitmap = [], style_filter = [], context2d = True \<rparr>),
              fresh = 1, provides2d = True \<rparr> 0
     = Some \<lparr> canvas_width = 0, canvas_height = 3, bitmap = [], style_filter = [], context2d = True \<rparr>
   \<and> applyEffectsToCanvas
        \<lparr> canvases = (\<lambda>r. None)(0 \<mapsto> \<lparr> canvas_width = 0, canvas_height = 3,
             bitmap = [], style_filter = [], context2d = True \<rparr>),
          fresh = 1, provides2d = True \<rparr> 0
        [\<lparr> id' = ''dithering-1'', type = Dithering, enabled = True, config = emptyConfig \<rparr>]
     = Inl IndexSizeError"
  using applyEffectsToCanvas_failures
    [of "\<lparr> canvases = (\<lambda>r. None)(0 \<mapsto> \<lparr> canvas_width = 0, canvas_height = 3,
             bitmap = [], style_filter = [], context2d = True \<rparr>),
           fresh = 1, provides2d = True \<rparr>" 0
        "\<lparr> canvas_width = 0, canvas_height = 3, bitmap = [], style_filter = [], context2d = True \<rparr>"
        "[\<lparr> id' = ''dithering-1'', type = Dithering, enabled = True, config = emptyConfig \<rparr>]"]
  by simp

text \<open>
  C10: an enabled gamma descriptor whose configuration has no gamma record, or has the
  value 0 there, is applied with parameter 1, which returns a valid image as it is; the
  value 1.2 is the one that \<open>createDefaultEffect\<close> puts into the configuration, and a
  descriptor made by it is applied with 1.2.
\<close>

theorem gamma_fallback_is_one:
  assumes "type effect = Gamma" and "enabled effect"
    and "gamma (config effect) = None \<or> gamma (config effect) = Some 0"
  shows "apply_effect effect img = applyGamma img 1
    \<and> (valid img \<longrightarrow> apply_effect effect img = img)
    \<and> gamma (config (createDefaultEffect Gamma now)) = Some (12 / 10)
    \<and> apply_effect (createDefaultEffect Gamma now) img = applyGamma img (12 / 10)"
proof -
  have "or_default (gamma (config effect)) 1 = 1"
    using assms(3) by (auto simp: or_default_def)
  then have a: "apply_effect effect img = applyGamma img 1"
    using assms(1,2) by (simp add: apply_effect_def)
  have b: "gamma (config (createDefaultEffect Gamma now)) = Some (12 / 10)"
    by (simp add: createDefaultEffect_def defaultConfigs_def emptyConfig_def)
  have c: "apply_effect (createDefaultEffect Gamma now) img = applyGamma img (12 / 10)"
    by (simp add: apply_effect_def createDefaultEffect_def defaultConfigs_def emptyConfig_def
        or_default_def)
  show ?thesis
    using a b c applyGamma_one [of img] by simp
qed

theorem gamma_fallback_is_one_witness:
  "type \<lparr> id' = ''gamma-1'', type = Gamma, enabled = True, config = emptyConfig \<lparr> gamma := Some 0 \<rparr> \<rparr>
     = Gamma
   \<and> gamma (config \<lparr> id' = ''gamma-1'', type = Gamma, enabled = True,
                      config = emptyConfig \<lparr> gamma := Some 0 \<rparr> \<rparr>) = Some 0
   \<and> valid \<lparr> data = [10, 20, 30, 255], width = 1, height = 1 \<rparr>
   \<and> apply_effect \<lparr> id' = ''gamma-1'', type = Gamma, enabled = True,
                     config = emptyConfig \<lparr> gamma := Some 0 \<rparr> \<rparr>
        \<lparr> data = [10, 20, 30, 255], width = 1, height = 1 \<rparr>
      = \<lparr> data = [10, 20, 30, 255], width = 1, height = 1 \<rparr>"
proof -
  let ?effect = "\<lparr> id' = ''gamma-1'', type = Gamma, enabled = True,
                   config = emptyConfig \<lparr> gamma := Some 0 \<rparr> \<rparr>"
  let ?img = "\<lparr> data = [10, 20, 30, 255], width = 1, height = 1 \<rparr>"
  have v: "valid ?img" by (simp add: valid_def)
  have h: "type ?effect = Gamma" "enabled ?effect"
    "gamma (config ?effect) = None \<or> gamma (config ?effect) = Some 0"
    by simp_all
  from gamma_fallback_is_one [OF h, of ?img "''0''"] v
  have "apply_effect ?effect ?img = ?img" by blast
  with v show ?thesis by simp
qed

end
